theory Spec2Isabelle
  imports Main
begin

section \<open>Values read from JSON\<close>

text \<open>
  The normaliser receives whatever \<^verbatim>\<open>JSON.parse\<close> produced. A parsed value is
  one of the six JSON shapes; an object is the list of its own members, whose names
  are distinct in any object the parser returns. The program never depends on the
  order of the members. Numbers are kept as integers: the code under study only asks
  of a number whether it is a string or an object (it is neither) and whether it is
  truthy. A property that is missing reads as \<^verbatim>\<open>undefined\<close>, which is \<open>None\<close>
  here.
\<close>

datatype json =
    JNull
  | JBool bool
  | JNum int
  | JStr string
  | JArr "json list"
  | JObj "(string \<times> json) list"

type_synonym jsobj = "(string \<times> json) list"

text \<open>Decimal rendering of a natural number, as a template literal prints an index or a count.\<close>

definition digit :: "nat \<Rightarrow> char" where
  "digit n = char_of (48 + n)"

fun show_nat :: "nat \<Rightarrow> string" where
  "show_nat n = (if n < 10 then [digit n] else show_nat (n div 10) @ [digit (n mod 10)])"

declare show_nat.simps [simp del]

text \<open>\<^verbatim>\<open>v?.k\<close>: only an object has the members the program asks for.\<close>

fun get_prop :: "json option \<Rightarrow> string \<Rightarrow> json option" where
  "get_prop (Some (JObj ms)) k = map_of ms k"
| "get_prop _ k = None"

text \<open>JavaScript truthiness of a value that may be \<^verbatim>\<open>undefined\<close>.\<close>

fun truthy :: "json option \<Rightarrow> bool" where
  "truthy None = False"
| "truthy (Some JNull) = False"
| "truthy (Some (JBool b)) = b"
| "truthy (Some (JNum n)) = (n \<noteq> 0)"
| "truthy (Some (JStr s)) = (s \<noteq> [])"
| "truthy (Some (JArr xs)) = True"
| "truthy (Some (JObj ms)) = True"

text \<open>\<^verbatim>\<open>typeof v === "string" ? v : d\<close>\<close>

fun string_or :: "json option \<Rightarrow> string \<Rightarrow> string" where
  "string_or (Some (JStr s)) d = s"
| "string_or _ d = d"

text \<open>
  The own enumerable properties that an object spread copies from a value for which
  \<^verbatim>\<open>typeof v === "object" && v\<close> holds: the members of an object, the indexed
  elements of an array. Every other value fails that test and contributes nothing.
\<close>

fun own_props :: "json option \<Rightarrow> jsobj" where
  "own_props (Some (JObj ms)) = ms"
| "own_props (Some (JArr xs)) = zip (map show_nat [0..<length xs]) xs"
| "own_props _ = []"

text \<open>Assigning a property: an existing key keeps its place, a new key is appended.\<close>

fun set_prop :: "string \<Rightarrow> json \<Rightarrow> jsobj \<Rightarrow> jsobj" where
  "set_prop k v [] = [(k, v)]"
| "set_prop k v (p # ps) = (if fst p = k then (k, v) # ps else p # set_prop k v ps)"

text \<open>\<^verbatim>\<open>{ ...base, ...src }\<close>: the members of \<open>src\<close> are assigned onto \<open>base\<close> in order.\<close>

definition spread :: "jsobj \<Rightarrow> jsobj \<Rightarrow> jsobj" where
  "spread base src = foldl (\<lambda>acc p. set_prop (fst p) (snd p) acc) base src"

section \<open>Domain registry\<close>

record Domain =
  key :: string
  name :: string
  short :: string
  prompt :: string

text \<open>Punctuation outside ASCII, held as its UTF-8 bytes.\<close>

definition en_dash :: string where
  "en_dash = [char_of (226::nat), char_of (128::nat), char_of (147::nat)]"

definition em_dash :: string where
  "em_dash = [char_of (226::nat), char_of (128::nat), char_of (148::nat)]"

definition right_quote :: string where
  "right_quote = [char_of (226::nat), char_of (128::nat), char_of (153::nat)]"

definition left_dquote :: string where
  "left_dquote = [char_of (226::nat), char_of (128::nat), char_of (156::nat)]"

definition right_dquote :: string where
  "right_dquote = [char_of (226::nat), char_of (128::nat), char_of (157::nat)]"

definition DOMAINS :: "Domain list" where
  "DOMAINS =
    [ \<lparr> key = ''awareness'', name = ''Awareness & Orientation'', short = ''Awareness'',
        prompt = ''Consider current AI awareness, assumptions, and shared understanding in this programme context.'' \<rparr>,
      \<lparr> key = ''coagency'', name = ''Human'' @ en_dash @ ''AI Co-Agency'', short = ''Co-Agency'',
        prompt = ''Consider how people will partner with AI systems, maintain agency, and clarify roles and responsibilities.'' \<rparr>,
      \<lparr> key = ''practice'', name = ''Applied Practice & Innovation'', short = ''Practice'',
        prompt = ''Consider where learners apply AI in authentic practice, experimentation, and improvement''
                 @ em_dash @ ''beyond surface tool use.'' \<rparr>,
      \<lparr> key = ''ethics'', name = ''Ethics, Equity & Impact'', short = ''Ethics'',
        prompt = ''Consider ethical risk, equity, accessibility, bias, and downstream impacts across learners and stakeholders.'' \<rparr>,
      \<lparr> key = ''governance'', name = ''Decision-Making & Governance'', short = ''Governance'',
        prompt = ''Consider decision ownership, approval processes, safeguards, documentation, and institutional alignment.'' \<rparr>,
      \<lparr> key = ''reflection'', name = ''Reflection, Learning & Renewal'', short = ''Renewal'',
        prompt = ''Consider how learning is reviewed, improved over time, and supported through reflective practice and feedback loops.'' \<rparr> ]"

text \<open>The six members of the type \<^verbatim>\<open>DomainKey\<close>, in registry order.\<close>

definition domain_keys :: "string list" where
  "domain_keys = [''awareness'', ''coagency'', ''practice'', ''ethics'', ''governance'', ''reflection'']"

section \<open>Mapping items and programme details\<close>

datatype MapItemType = Module | Activity | Assessment

text \<open>
  The field \<^verbatim>\<open>domains\<close> is declared \<^verbatim>\<open>Record<DomainKey, boolean>\<close>, but the
  normaliser fills it from untyped input, so at run time it is an object like any other.
\<close>

record MapItem =
  item_id :: string
  item_type :: MapItemType
  item_name :: string
  item_notes :: string
  item_domains :: jsobj

record ProgrammeDetails =
  programmeTitle :: string
  awardLevel :: string
  department :: string
  institution :: string
  mappingDate :: string
  version :: string

record app_state =
  programme :: ProgrammeDetails
  items :: "MapItem list"

definition PLURAL_LABELS :: "MapItemType \<Rightarrow> string" where
  "PLURAL_LABELS t = (case t of Module \<Rightarrow> ''Modules'' | Activity \<Rightarrow> ''Activities''
                       | Assessment \<Rightarrow> ''Assessments'')"

definition emptyDomains :: jsobj where
  "emptyDomains =
    [(''awareness'', JBool False), (''coagency'', JBool False), (''practice'', JBool False),
     (''ethics'', JBool False), (''governance'', JBool False), (''reflection'', JBool False)]"

text \<open>
  \<^verbatim>\<open>crypto.randomUUID()\<close> is an effect: the identifiers it will hand out are an
  explicit supply, and a call takes the first and returns the rest.
\<close>

type_synonym uuids = "nat \<Rightarrow> string"

definition randomUUID :: "uuids \<Rightarrow> string \<times> uuids" where
  "randomUUID us = (us 0, \<lambda>n. us (Suc n))"

definition newItem :: "MapItemType \<Rightarrow> uuids \<Rightarrow> MapItem \<times> uuids" where
  "newItem t us =
    (let (i, us') = randomUUID us
     in (\<lparr> item_id = i, item_type = t, item_name = '''', item_notes = '''',
            item_domains = emptyDomains \<rparr>, us'))"

text \<open>\<^verbatim>\<open>todayISODate()\<close> reads the clock; the date it returns is the parameter \<open>today\<close>.\<close>

definition defaultProgrammeDetails :: "string \<Rightarrow> ProgrammeDetails" where
  "defaultProgrammeDetails today =
    \<lparr> programmeTitle = '''', awardLevel = '''', department = '''', institution = '''',
      mappingDate = today, version = ''v0.1'' \<rparr>"

section \<open>State normaliser\<close>

fun coerceMapItemType :: "json option \<Rightarrow> MapItemType" where
  "coerceMapItemType (Some (JStr s)) =
    (if s = ''Module'' then Module
     else if s = ''Activity'' then Activity
     else if s = ''Assessment'' then Assessment
     else Module)"
| "coerceMapItemType _ = Module"

text \<open>The callback of \<^verbatim>\<open>arr.map\<close> in \<^verbatim>\<open>normalizeItems\<close>, for one element.\<close>

definition normalizeItem :: "json \<Rightarrow> uuids \<Rightarrow> MapItem \<times> uuids" where
  "normalizeItem it us =
    (let (i, us') = (case get_prop (Some it) ''id'' of
                       Some (JStr s) \<Rightarrow> (s, us)
                     | _ \<Rightarrow> randomUUID us)
     in (\<lparr> item_id = i,
            item_type = coerceMapItemType (get_prop (Some it) ''type''),
            item_name = string_or (get_prop (Some it) ''name'') '''',
            item_notes = string_or (get_prop (Some it) ''notes'') '''',
            item_domains = spread emptyDomains (own_props (get_prop (Some it) ''domains'')) \<rparr>,
         us'))"

fun map_normalizeItem :: "json list \<Rightarrow> uuids \<Rightarrow> MapItem list \<times> uuids" where
  "map_normalizeItem [] us = ([], us)"
| "map_normalizeItem (it # rest) us =
    (let (m, us1) = normalizeItem it us;
         (ms, us2) = map_normalizeItem rest us1
     in (m # ms, us2))"

definition normalizeItems :: "json option \<Rightarrow> uuids \<Rightarrow> MapItem list \<times> uuids" where
  "normalizeItems itemsRaw us =
    (let arr = (case itemsRaw of Some (JArr xs) \<Rightarrow> xs | _ \<Rightarrow> [])
     in if length arr = 0
        then (let (m, us') = newItem Module us in ([m], us'))
        else map_normalizeItem arr us)"

definition normalizeProgramme :: "json option \<Rightarrow> string \<Rightarrow> ProgrammeDetails" where
  "normalizeProgramme p today =
    (let base = defaultProgrammeDetails today
     in \<lparr> programmeTitle = string_or (get_prop p ''programmeTitle'') (programmeTitle base),
          awardLevel = string_or (get_prop p ''awardLevel'') (awardLevel base),
          department = string_or (get_prop p ''department'') (department base),
          institution = string_or (get_prop p ''institution'') (institution base),
          mappingDate = string_or (get_prop p ''mappingDate'') (mappingDate base),
          version = string_or (get_prop p ''version'') (version base) \<rparr>)"

section \<open>Persistence adapter\<close>

text \<open>
  \<^verbatim>\<open>loadState\<close> reads the stored text (\<open>None\<close> when the key has no entry) and
  parses it. \<^verbatim>\<open>JSON.parse\<close> belongs to the platform: it is the parameter \<open>parse\<close>,
  which answers \<open>None\<close> where the real one throws. The \<^verbatim>\<open>catch\<close> branch is the
  last line.
\<close>

definition loadState ::
  "(string \<Rightarrow> json option) \<Rightarrow> string option \<Rightarrow> string \<Rightarrow> uuids \<Rightarrow> app_state \<times> uuids" where
  "loadState parse raw today us =
    (case raw of
       None \<Rightarrow> (let (m, us') = newItem Module us
                in (\<lparr> programme = defaultProgrammeDetails today, items = [m] \<rparr>, us'))
     | Some text \<Rightarrow>
        (if text = [] then
           (let (m, us') = newItem Module us
            in (\<lparr> programme = defaultProgrammeDetails today, items = [m] \<rparr>, us'))
         else
           (case parse text of
              Some parsed \<Rightarrow>
                (let p = normalizeProgramme (get_prop (Some parsed) ''programme'') today;
                     (ms, us') = normalizeItems (get_prop (Some parsed) ''items'') us
                 in (\<lparr> programme = p, items = ms \<rparr>, us'))
            | None \<Rightarrow>
                (let (m, us') = newItem Module us
                 in (\<lparr> programme = defaultProgrammeDetails today, items = [m] \<rparr>, us')))))"

section \<open>Coverage and observations\<close>

text \<open>
  A JavaScript number as the counting code can produce it: an integer, or \<^verbatim>\<open>NaN\<close>
  once \<^verbatim>\<open>undefined\<close> has entered the arithmetic.
\<close>

datatype jsnum = Num int | NaN

type_synonym counts = "string \<rightharpoonup> jsnum"

fun to_num :: "jsnum option \<Rightarrow> jsnum" where
  "to_num None = NaN"
| "to_num (Some n) = n"

fun num_add :: "jsnum \<Rightarrow> jsnum \<Rightarrow> jsnum" where
  "num_add (Num a) (Num b) = Num (a + b)"
| "num_add _ _ = NaN"

fun num_sub :: "jsnum \<Rightarrow> jsnum \<Rightarrow> jsnum" where
  "num_sub (Num a) (Num b) = Num (a - b)"
| "num_sub _ _ = NaN"

text \<open>\<^verbatim>\<open>n > 0\<close>, false for \<^verbatim>\<open>NaN\<close>.\<close>

fun gt0 :: "jsnum \<Rightarrow> bool" where
  "gt0 (Num a) = (0 < a)"
| "gt0 NaN = False"

definition show_int :: "int \<Rightarrow> string" where
  "show_int i = (if i < 0 then CHR ''-'' # show_nat (nat (- i)) else show_nat (nat i))"

fun show_num :: "jsnum option \<Rightarrow> string" where
  "show_num None = ''undefined''"
| "show_num (Some NaN) = ''NaN''"
| "show_num (Some (Num i)) = show_int i"

definition zero_counts :: counts where
  "zero_counts =
    [''awareness'' \<mapsto> Num 0, ''coagency'' \<mapsto> Num 0, ''practice'' \<mapsto> Num 0,
     ''ethics'' \<mapsto> Num 0, ''governance'' \<mapsto> Num 0, ''reflection'' \<mapsto> Num 0]"

text \<open>
  The inner \<^verbatim>\<open>forEach\<close> over \<^verbatim>\<open>Object.keys(item.domains)\<close>:
  \<^verbatim>\<open>if (item.domains[k]) counts[k] += 1\<close>.
\<close>

definition tally_item :: "MapItem \<Rightarrow> counts \<Rightarrow> counts" where
  "tally_item item cnts =
    foldl (\<lambda>c k. if truthy (map_of (item_domains item) k)
                  then c(k \<mapsto> num_add (to_num (c k)) (Num 1)) else c)
          cnts (map fst (item_domains item))"

definition coverage :: "MapItem list \<Rightarrow> counts" where
  "coverage its = foldl (\<lambda>c item. tally_item item c) zero_counts its"

definition totalDomainTags :: "counts \<Rightarrow> jsnum" where
  "totalDomainTags cov = foldl (\<lambda>sum d. num_add sum (to_num (cov (key d)))) (Num 0) DOMAINS"

definition hasAnyTag :: "counts \<Rightarrow> bool" where
  "hasAnyTag cov = gt0 (totalDomainTags cov)"

text \<open>Both export buttons carry \<^verbatim>\<open>disabled={!hasAnyTag}\<close>.\<close>

definition export_disabled :: "MapItem list \<Rightarrow> bool" where
  "export_disabled its = (\<not> hasAnyTag (coverage its))"

text \<open>
  \<^verbatim>\<open>Array.prototype.sort\<close> with a comparison function is stable: an element moves
  behind another only when the comparison of the two is positive. It is modelled as a
  stable insertion sort on the comparison function.
\<close>

fun insert_cmp :: "('a \<Rightarrow> 'a \<Rightarrow> jsnum) \<Rightarrow> 'a \<Rightarrow> 'a list \<Rightarrow> 'a list" where
  "insert_cmp cmp x [] = [x]"
| "insert_cmp cmp x (y # ys) =
    (if gt0 (cmp x y) then y # insert_cmp cmp x ys else x # y # ys)"

definition sort_cmp :: "('a \<Rightarrow> 'a \<Rightarrow> jsnum) \<Rightarrow> 'a list \<Rightarrow> 'a list" where
  "sort_cmp cmp xs = foldr (insert_cmp cmp) xs []"

text \<open>\<^verbatim>\<open>(a, b) => coverage[b.key] - coverage[a.key]\<close>\<close>

definition by_count_desc :: "counts \<Rightarrow> Domain \<Rightarrow> Domain \<Rightarrow> jsnum" where
  "by_count_desc cov a b = num_sub (to_num (cov (key b))) (to_num (cov (key a)))"

definition sorted_domains :: "counts \<Rightarrow> Domain list" where
  "sorted_domains cov = sort_cmp (by_count_desc cov) DOMAINS"

text \<open>\<^verbatim>\<open>sorted[0]\<close> and \<^verbatim>\<open>sorted[sorted.length - 1]\<close>, \<^verbatim>\<open>undefined\<close> on an empty array.\<close>

definition most :: "counts \<Rightarrow> Domain option" where
  "most cov = (case sorted_domains cov of [] \<Rightarrow> None | d # _ \<Rightarrow> Some d)"

definition least :: "counts \<Rightarrow> Domain option" where
  "least cov = (if sorted_domains cov = [] then None else Some (last (sorted_domains cov)))"

fun join :: "string \<Rightarrow> string list \<Rightarrow> string" where
  "join sep [] = []"
| "join sep [x] = x"
| "join sep (x # y # ys) = x @ sep @ join sep (y # ys)"

definition represented_line :: "string \<Rightarrow> counts \<Rightarrow> Domain \<Rightarrow> string" where
  "represented_line which cov d =
    ''The '' @ which @ '' represented domain is **'' @ name d @ ''** ('' @ show_num (cov (key d))
      @ '' item'' @ (if cov (key d) = Some (Num 1) then '''' else ''s'') @ '').''"

definition observations :: "nat \<Rightarrow> counts \<Rightarrow> string list" where
  "observations totalItems cov =
    (let lines0 =
           [''You mapped '' @ show_nat totalItems @ '' item''
              @ (if totalItems = 1 then '''' else ''s'')
              @ ''. Domain tagging indicates where attention is currently concentrated.''];
         totalTagged = foldl (\<lambda>sum d. num_add sum (to_num (cov (key d)))) (Num 0) DOMAINS;
         lines1 =
           (if gt0 totalTagged then
              (let zeroDomains = filter (\<lambda>d. cov (key d) = Some (Num 0)) DOMAINS
               in lines0
                  @ (case most cov of None \<Rightarrow> [] | Some d \<Rightarrow> [represented_line ''most'' cov d])
                  @ (case least cov of None \<Rightarrow> [] | Some d \<Rightarrow> [represented_line ''least'' cov d])
                  @ (if zeroDomains \<noteq> [] then
                       [''No items were tagged for: '' @ join '', '' (map name zeroDomains)
                          @ ''. This may indicate a gap, or that the domain is addressed implicitly rather than explicitly.'']
                     else []))
            else
              lines0 @ [''No domain tags yet. Add a few items and tag at least one domain to generate coverage insights.''])
     in lines1 @ [''Treat these signals as prompts for discussion, not as performance scores.''])"

section \<open>Strings\<close>

text \<open>
  Strings are byte lists; the string methods are modelled on ASCII, where
  \<^verbatim>\<open>toLowerCase\<close> moves \<^verbatim>\<open>A-Z\<close> to \<^verbatim>\<open>a-z\<close> and \<^verbatim>\<open>trim\<close> removes
  tab, line feed, vertical tab, form feed, carriage return and space.
\<close>

definition lower_char :: "char \<Rightarrow> char" where
  "lower_char c =
    (let n = (of_char c :: nat) in if 65 \<le> n \<and> n \<le> 90 then char_of (n + 32) else c)"

definition toLowerCase :: "string \<Rightarrow> string" where
  "toLowerCase s = map lower_char s"

definition is_space :: "char \<Rightarrow> bool" where
  "is_space c = (let n = (of_char c :: nat) in (9 \<le> n \<and> n \<le> 13) \<or> n = 32)"

definition trim :: "string \<Rightarrow> string" where
  "trim s = rev (dropWhile is_space (rev (dropWhile is_space s)))"

text \<open>The character class \<^verbatim>\<open>[a-z0-9]\<close>.\<close>

definition is_slug_char :: "char \<Rightarrow> bool" where
  "is_slug_char c =
    (let n = (of_char c :: nat) in (97 \<le> n \<and> n \<le> 122) \<or> (48 \<le> n \<and> n \<le> 57))"

text \<open>
  \<^verbatim>\<open>.replace(/[^a-z0-9]+/g, "-")\<close>: scanning from the left, each maximal run of
  characters outside the class becomes one hyphen.
\<close>

function replace_runs :: "string \<Rightarrow> string" where
  "replace_runs [] = []"
| "replace_runs (c # cs) =
    (if is_slug_char c then c # replace_runs cs
     else CHR ''-'' # replace_runs (dropWhile (\<lambda>x. \<not> is_slug_char x) cs))"
  by pat_completeness auto
termination
  by (relation "measure length") (auto simp: length_dropWhile_le le_imp_less_Suc)

text \<open>
  \<^verbatim>\<open>.replace(/(^-|-$)/g, "")\<close>: a hyphen at the very start is removed, and then a
  hyphen at the very end of what is left.
\<close>

definition strip_edge_hyphens :: "string \<Rightarrow> string" where
  "strip_edge_hyphens s =
    (let t = (case s of [] \<Rightarrow> [] | c # cs \<Rightarrow> if c = CHR ''-'' then cs else s)
     in if t \<noteq> [] \<and> last t = CHR ''-'' then butlast t else t)"

definition safeSlug :: "string \<Rightarrow> string" where
  "safeSlug input = strip_edge_hyphens (replace_runs (toLowerCase input))"

definition backslash :: char where
  "backslash = char_of (92::nat)"

definition escapePipes :: "string \<Rightarrow> string" where
  "escapePipes s = concat (map (\<lambda>c. if c = CHR ''|'' then [backslash, CHR ''|''] else [c]) s)"

text \<open>\<^verbatim>\<open>a || b\<close> on strings: the empty string is falsy.\<close>

definition or_else :: "string \<Rightarrow> string \<Rightarrow> string" where
  "or_else a b = (if a = [] then b else a)"

section \<open>Report builder\<close>

definition TOOL_NAME :: string where
  "TOOL_NAME = ''AI Capability Programme Mapping''"

definition PURPOSE_TEXT :: string where
  "PURPOSE_TEXT = ''This tool supports reflective thinking and discussion. It does not provide definitive answers, recommendations, or compliance decisions.''"

definition LIMITATIONS_TEXT :: string where
  "LIMITATIONS_TEXT = ''This tool is designed to support reflective practice and informed discussion. It does not replace professional judgement, institutional policy, or formal governance processes.''"

definition PRIVACY_TEXT :: string where
  "PRIVACY_TEXT = ''This tool runs locally in your browser. Data is not sent anywhere by default.''"

record markdown_args =
  toolName :: string
  exportedAtISO :: string
  md_programme :: ProgrammeDetails
  md_items :: "MapItem list"
  md_coverage :: counts
  md_observations :: "string list"

text \<open>\<^verbatim>\<open>for (const it of items) groups[it.type].push(it)\<close>\<close>

definition group_items :: "MapItem list \<Rightarrow> MapItemType \<Rightarrow> MapItem list" where
  "group_items its =
    foldl (\<lambda>groups it. groups(item_type it := groups (item_type it) @ [it])) (\<lambda>t. []) its"

text \<open>One table row, for the item at 0-based position \<open>idx\<close> of its group.\<close>

definition item_row :: "nat \<Rightarrow> MapItem \<Rightarrow> string" where
  "item_row idx it =
    (let nm = or_else (trim (or_else (item_name it) '''')) ''Untitled'';
         tags = map short (filter (\<lambda>d. truthy (map_of (item_domains it) (key d))) DOMAINS);
         nts = trim (or_else (item_notes it) '''')
     in ''| '' @ show_nat (idx + 1) @ '' | '' @ escapePipes nm @ '' | ''
        @ (if length tags \<noteq> 0 then escapePipes (join '', '' tags) else ''_None_'')
        @ '' | '' @ (if nts \<noteq> [] then escapePipes nts else ''_'' @ em_dash @ ''_'') @ '' |'')"

text \<open>
  The closure \<^verbatim>\<open>renderType\<close> pushes onto the array \<^verbatim>\<open>md\<close>; it takes the array
  and returns it extended.
\<close>

definition renderType :: "(MapItemType \<Rightarrow> MapItem list) \<Rightarrow> MapItemType \<Rightarrow> string list \<Rightarrow> string list" where
  "renderType groups t md =
    (let list = groups t;
         md1 = md @ [''### '' @ PLURAL_LABELS t, '''']
     in if length list = 0
        then md1 @ [''_(No '' @ toLowerCase (PLURAL_LABELS t) @ '' added.)_'', '''']
        else md1 @ [''| # | Item | Domain tags | Notes |'', ''|---:|---|---|---|'']
                 @ map (\<lambda>(idx, it). item_row idx it) (zip [0..<length list] list)
                 @ [''''])"

text \<open>The array \<^verbatim>\<open>md\<close> as it stands before the first call of \<^verbatim>\<open>renderType\<close>.\<close>

definition md_head :: "markdown_args \<Rightarrow> string \<Rightarrow> string list" where
  "md_head args today =
    (let p = md_programme args;
         title = trim (or_else (programmeTitle p) ''Programme mapping'');
         mdate = trim (or_else (mappingDate p) today)
     in [''# '' @ title, '''',
         ''**Tool:** '' @ toolName args,
         ''**Exported:** '' @ exportedAtISO args, '''',
         ''## Programme details'', '''',
         ''- **Programme title:** '' @ or_else (trim (programmeTitle p)) em_dash,
         ''- **Award / level:** '' @ or_else (trim (awardLevel p)) em_dash,
         ''- **Department / faculty:** '' @ or_else (trim (department p)) em_dash,
         ''- **Institution:** '' @ or_else (trim (institution p)) em_dash,
         ''- **Mapping date:** '' @ mdate,
         ''- **Version / notes:** '' @ or_else (trim (version p)) em_dash, '''',
         ''## Purpose and framing'', '''',
         PURPOSE_TEXT, '''',
         PRIVACY_TEXT, '''',
         ''## Coverage snapshot'', '''',
         ''| Domain | Tagged items |'',
         ''|---|---:|'']
        @ map (\<lambda>d. ''| '' @ escapePipes (name d) @ '' | '' @ show_num (md_coverage args (key d)) @ '' |'') DOMAINS
        @ ['''',
           ''## Key observations'', '''']
        @ map (\<lambda>line. ''- '' @ line) (md_observations args)
        @ ['''',
           ''## Domain lenses'', '''']
        @ map (\<lambda>d. ''- **'' @ name d @ '':** '' @ prompt d) DOMAINS
        @ ['''',
           ''## Mapping items (QA-ready view)'', '''',
           ''_Items are grouped by type and include domain tags. Treat tags as interpretive lenses for discussion, not performance scores._'',
           ''''])"

text \<open>What is pushed after the three calls of \<^verbatim>\<open>renderType\<close>.\<close>

definition md_tail :: "markdown_args \<Rightarrow> string list" where
  "md_tail args =
    (let n = length (md_items args);
         totalTagged = foldl (\<lambda>sum d. num_add sum (to_num (md_coverage args (key d)))) (Num 0) DOMAINS
     in [''## Interpretation prompts'', '''',
         ''- What does the current pattern of domain tags suggest about the programme'' @ right_quote
           @ ''s explicit emphasis? ('' @ show_nat n @ '' item'' @ (if n = 1 then '''' else ''s'')
           @ '', '' @ show_num (Some totalTagged) @ '' domain tag''
           @ (if totalTagged = Num 1 then '''' else ''s'') @ '')'',
         ''- Which domains are highly visible because they are easy to describe (or easy to evidence), rather than most important?'',
         ''- Which domains might be present implicitly but not visible in module/activity/assessment descriptions?'',
         ''- Where are students required to exercise judgement with AI, not just use tools?'',
         ''- What governance or ethical risks are '' @ left_dquote @ ''owned'' @ right_dquote
           @ '' nowhere in the programme design?'',
         ''- What would it look like to strengthen one underrepresented domain without increasing workload?'',
         '''',
         ''## Use and limitations'', '''',
         LIMITATIONS_TEXT, '''',
         ''_Next step (optional): paste this export into programme documentation (or QA/review notes), then revisit during review cycles._'',
         ''''])"

text \<open>The array \<^verbatim>\<open>md\<close> at the end of \<^verbatim>\<open>buildMarkdown\<close>, and the text returned.\<close>

definition buildMarkdown_lines :: "markdown_args \<Rightarrow> string \<Rightarrow> string list" where
  "buildMarkdown_lines args today =
    (let groups = group_items (md_items args);
         md0 = md_head args today;
         md1 = renderType groups Module md0;
         md2 = renderType groups Activity md1;
         md3 = renderType groups Assessment md2
     in md3 @ md_tail args)"

definition buildMarkdown :: "markdown_args \<Rightarrow> string \<Rightarrow> string" where
  "buildMarkdown args today = join [CHR 0x0A] (buildMarkdown_lines args today)"

section \<open>Export and import\<close>

record ExportPayload =
  tool :: string
  exportedAt :: string
  payload_programme :: ProgrammeDetails
  payload_items :: "MapItem list"

text \<open>
  \<^verbatim>\<open>exportJSON\<close> hands a file name and a payload to the download; \<open>now\<close> is
  \<^verbatim>\<open>new Date().toISOString()\<close>.
\<close>

definition export_stem :: "ProgrammeDetails \<Rightarrow> string \<Rightarrow> string" where
  "export_stem p today =
    (let safeTitle = or_else (safeSlug (or_else (programmeTitle p) ''programme-mapping'')) ''programme-mapping'';
         date = or_else (mappingDate p) today
     in safeTitle @ ''-'' @ date)"

definition exportJSON :: "app_state \<Rightarrow> string \<Rightarrow> string \<Rightarrow> string \<times> ExportPayload" where
  "exportJSON st now today =
    (export_stem (programme st) today @ ''.json'',
     \<lparr> tool = TOOL_NAME, exportedAt = now, payload_programme = programme st,
       payload_items = items st \<rparr>)"

definition exportMarkdown :: "app_state \<Rightarrow> string \<Rightarrow> string \<Rightarrow> string \<times> string" where
  "exportMarkdown st now today =
    (let cov = coverage (items st)
     in (export_stem (programme st) today @ ''.md'',
         buildMarkdown \<lparr> toolName = TOOL_NAME, exportedAtISO = now, md_programme = programme st,
                         md_items = items st, md_coverage = cov,
                         md_observations = observations (length (items st)) cov \<rparr> today))"

text \<open>
  \<^verbatim>\<open>handleImportFile\<close>: \<open>parsed\<close> is the outcome of \<^verbatim>\<open>JSON.parse\<close> on the file's
  text (\<open>None\<close> when it throws), \<open>ok\<close> is the user's answer to the confirmation dialog.
  The result names what the user was shown and gives the state afterwards. Of the test
  \<^verbatim>\<open>!Array.isArray(nextItems) || nextItems.length === 0\<close> the first half is false by
  the type of \<open>nextItems\<close>, a list; the second half is kept.
\<close>

datatype import_outcome =
    AlertNotJSON
  | AlertNotMappingExport
  | Declined
  | Replaced

definition handleImportFile ::
  "json option \<Rightarrow> bool \<Rightarrow> string \<Rightarrow> uuids \<Rightarrow> app_state \<Rightarrow> import_outcome \<times> app_state" where
  "handleImportFile parsed ok today us st =
    (case parsed of
       None \<Rightarrow> (AlertNotJSON, st)
     | Some v \<Rightarrow>
        (let nextProgramme = normalizeProgramme (get_prop (Some v) ''programme'') today;
             nextItems = fst (normalizeItems (get_prop (Some v) ''items'') us)
         in if length nextItems = 0 then (AlertNotMappingExport, st)
            else if \<not> ok then (Declined, st)
            else (Replaced, \<lparr> programme = nextProgramme, items = nextItems \<rparr>)))"

section \<open>Notions used in the statements\<close>

text \<open>A concrete supply of identifiers, for evaluating the functions on examples.\<close>

definition sample_uuids :: uuids where
  "sample_uuids n = ''uuid-'' @ show_nat n"

text \<open>\<^verbatim>\<open>Array.isArray\<close>\<close>

fun isArray :: "json option \<Rightarrow> bool" where
  "isArray (Some (JArr xs)) = True"
| "isArray _ = False"

text \<open>
  The invariant the type \<^verbatim>\<open>Record<DomainKey, boolean>\<close> describes: the keys are
  the six domain keys, each once, and every value is a boolean.
\<close>

fun is_boolean :: "json \<Rightarrow> bool" where
  "is_boolean (JBool b) = True"
| "is_boolean _ = False"

definition six_boolean_tags :: "jsobj \<Rightarrow> bool" where
  "six_boolean_tags d =
    (distinct (map fst d) \<and> set (map fst d) = set domain_keys \<and> list_all (\<lambda>p. is_boolean (snd p)) d)"

text \<open>
  The slug rule in the specification's words, stated apart from the regular
  expressions of \<^verbatim>\<open>safeSlug\<close>: lowercase; a character outside \<^verbatim>\<open>[a-z0-9]\<close>
  yields a hyphen exactly when it ends its run, so each run yields one hyphen; then all
  leading and all trailing hyphens are dropped.
\<close>

fun collapse_runs :: "string \<Rightarrow> string" where
  "collapse_runs [] = []"
| "collapse_runs [c] = (if is_slug_char c then [c] else [CHR ''-''])"
| "collapse_runs (c # d # cs) =
    (if is_slug_char c then c # collapse_runs (d # cs)
     else if is_slug_char d then CHR ''-'' # collapse_runs (d # cs)
     else collapse_runs (d # cs))"

definition trim_hyphens :: "string \<Rightarrow> string" where
  "trim_hyphens s =
    rev (dropWhile (\<lambda>c. c = CHR ''-'') (rev (dropWhile (\<lambda>c. c = CHR ''-'') s)))"

definition slug_rule :: "string \<Rightarrow> string" where
  "slug_rule s = trim_hyphens (collapse_runs (toLowerCase s))"

definition has_double_hyphen :: "string \<Rightarrow> bool" where
  "has_double_hyphen t = (\<exists>a b. t = a @ [CHR ''-'', CHR ''-''] @ b)"

text \<open>The number of domain-tag entries that are \<^verbatim>\<open>true\<close>, over all items.\<close>

definition true_tag_count :: "MapItem list \<Rightarrow> nat" where
  "true_tag_count its =
    sum_list (map (\<lambda>it. length (filter (\<lambda>p. snd p = JBool True) (item_domains it))) its)"

text \<open>The number of items that have the key \<open>k\<close> set to \<^verbatim>\<open>true\<close>.\<close>

definition tagged_with :: "string \<Rightarrow> MapItem list \<Rightarrow> nat" where
  "tagged_with k its = length (filter (\<lambda>it. map_of (item_domains it) k = Some (JBool True)) its)"

text \<open>The tagged-item count that a coverage holds for a domain, as an integer.\<close>

definition count_of :: "counts \<Rightarrow> Domain \<Rightarrow> int" where
  "count_of cov d = (case cov (key d) of Some (Num n) \<Rightarrow> n | _ \<Rightarrow> 0)"

section \<open>The normaliser returns one item per element\<close>

lemma newItem_fst:
  "fst (newItem t us) = \<lparr> item_id = us 0, item_type = t, item_name = '''', item_notes = '''',
            item_domains = emptyDomains \<rparr>"
  by (simp add: newItem_def randomUUID_def)

lemma map_normalizeItem_Cons:
  "fst (map_normalizeItem (x # xs) us) =
     fst (normalizeItem x us) # fst (map_normalizeItem xs (snd (normalizeItem x us)))"
  by (simp split: prod.splits)

lemma map_normalizeItem_length: "length (fst (map_normalizeItem xs us)) = length xs"
  by (induction xs arbitrary: us) (simp_all add: map_normalizeItem_Cons del: map_normalizeItem.simps(2))

lemma map_normalizeItem_nth:
  "i < length xs \<Longrightarrow> \<exists>u. fst (map_normalizeItem xs us) ! i = fst (normalizeItem (xs ! i) u)"
proof (induction xs arbitrary: us i)
  case Nil
  then show ?case by simp
next
  case (Cons x xs)
  show ?case
  proof (cases i)
    case 0
    then show ?thesis by (auto simp: map_normalizeItem_Cons simp del: map_normalizeItem.simps(2))
  next
    case (Suc j)
    with Cons.prems have "j < length xs" by simp
    from Cons.IH[OF this, of "snd (normalizeItem x us)"] obtain u where
      "fst (map_normalizeItem xs (snd (normalizeItem x us))) ! j = fst (normalizeItem (xs ! j) u)"
      by blast
    with Suc show ?thesis
      by (auto simp: map_normalizeItem_Cons simp del: map_normalizeItem.simps(2))
  qed
qed

lemma normalizeItem_fields:
  "fst (normalizeItem it u) =
     \<lparr> item_id = (case get_prop (Some it) ''id'' of Some (JStr s) \<Rightarrow> s | _ \<Rightarrow> u 0),
       item_type = coerceMapItemType (get_prop (Some it) ''type''),
       item_name = string_or (get_prop (Some it) ''name'') '''',
       item_notes = string_or (get_prop (Some it) ''notes'') '''',
       item_domains = spread emptyDomains (own_props (get_prop (Some it) ''domains'')) \<rparr>"
  by (simp add: normalizeItem_def randomUUID_def split: option.splits json.splits)

lemma normalizeItems_default:
  assumes "\<not> isArray itemsRaw \<or> itemsRaw = Some (JArr [])"
  shows "fst (normalizeItems itemsRaw us) = [fst (newItem Module us)]"
proof -
  from assms have "(case itemsRaw of Some (JArr xs) \<Rightarrow> xs | _ \<Rightarrow> []) = []"
    by (cases itemsRaw rule: isArray.cases) auto
  then show ?thesis by (simp add: normalizeItems_def split: prod.splits)
qed

lemma normalizeItems_array:
  "xs \<noteq> [] \<Longrightarrow> normalizeItems (Some (JArr xs)) us = map_normalizeItem xs us"
  by (simp add: normalizeItems_def)

lemma normalizeItems_not_Nil: "fst (normalizeItems itemsRaw us) \<noteq> []"
proof (cases "\<not> isArray itemsRaw \<or> itemsRaw = Some (JArr [])")
  case True
  then show ?thesis by (simp add: normalizeItems_default)
next
  case False
  then obtain xs where xs: "itemsRaw = Some (JArr xs)" "xs \<noteq> []"
    by (cases itemsRaw rule: isArray.cases) auto
  then have "length (fst (normalizeItems itemsRaw us)) = length xs"
    by (simp add: normalizeItems_array map_normalizeItem_length)
  with xs show ?thesis by auto
qed

text \<open>
  C5. Whatever \<^verbatim>\<open>normalizeItems\<close> is given, the list it returns is not empty. When
  the input is not an array, or is the empty array, the list is exactly one freshly
  created item: its type is Module and its identifier is the next one the generator
  hands out.
\<close>

theorem normalizeItems_nonempty:
  "fst (normalizeItems itemsRaw us) \<noteq> [] \<and>
   (\<not> isArray itemsRaw \<or> itemsRaw = Some (JArr []) \<longrightarrow>
      fst (normalizeItems itemsRaw us) = [fst (newItem Module us)] \<and>
      item_type (fst (newItem Module us)) = Module \<and>
      item_id (fst (newItem Module us)) = us 0)"
  using normalizeItems_not_Nil[of itemsRaw us]
  by (auto simp: normalizeItems_default newItem_fst)

theorem normalizeItems_nonempty_witness:
  "fst (normalizeItems None sample_uuids) = [fst (newItem Module sample_uuids)] \<and>
   fst (normalizeItems (Some (JStr ''items'')) sample_uuids) = [fst (newItem Module sample_uuids)] \<and>
   fst (normalizeItems (Some (JArr [])) sample_uuids) = [fst (newItem Module sample_uuids)] \<and>
   fst (normalizeItems (Some (JArr [JObj []])) sample_uuids) \<noteq> []"
  using normalizeItems_nonempty[of None sample_uuids]
        normalizeItems_nonempty[of "Some (JStr ''items'')" sample_uuids]
        normalizeItems_nonempty[of "Some (JArr [])" sample_uuids]
        normalizeItems_nonempty[of "Some (JArr [JObj []])" sample_uuids]
  by simp

text \<open>
  C8. For a non-empty array, \<^verbatim>\<open>normalizeItems\<close> returns a list of the same length,
  and the item at each index comes from the element at that index alone: it is the
  callback's result on that element, every field but the identifier is the same
  whatever the state of the identifier generator, and the identifier is the element's
  own \<^verbatim>\<open>id\<close> when that is a string.
\<close>

theorem normalizeItems_pointwise:
  assumes "xs \<noteq> []"
  shows "length (fst (normalizeItems (Some (JArr xs)) us)) = length xs \<and>
     (\<forall>i < length xs.
        (\<exists>u. fst (normalizeItems (Some (JArr xs)) us) ! i = fst (normalizeItem (xs ! i) u)) \<and>
        (\<forall>u. (fst (normalizeItems (Some (JArr xs)) us) ! i) \<lparr> item_id := '''' \<rparr>
               = (fst (normalizeItem (xs ! i) u)) \<lparr> item_id := '''' \<rparr>) \<and>
        (\<forall>s. get_prop (Some (xs ! i)) ''id'' = Some (JStr s) \<longrightarrow>
               item_id (fst (normalizeItems (Some (JArr xs)) us) ! i) = s))"
proof -
  have "\<And>i. i < length xs \<Longrightarrow>
        (\<exists>u. fst (map_normalizeItem xs us) ! i = fst (normalizeItem (xs ! i) u)) \<and>
        (\<forall>u. (fst (map_normalizeItem xs us) ! i) \<lparr> item_id := '''' \<rparr>
               = (fst (normalizeItem (xs ! i) u)) \<lparr> item_id := '''' \<rparr>) \<and>
        (\<forall>s. get_prop (Some (xs ! i)) ''id'' = Some (JStr s) \<longrightarrow>
               item_id (fst (map_normalizeItem xs us) ! i) = s)"
  proof -
    fix i assume "i < length xs"
    from map_normalizeItem_nth[OF this, of us] obtain u0 where
      u0: "fst (map_normalizeItem xs us) ! i = fst (normalizeItem (xs ! i) u0)" by blast
    show "(\<exists>u. fst (map_normalizeItem xs us) ! i = fst (normalizeItem (xs ! i) u)) \<and>
        (\<forall>u. (fst (map_normalizeItem xs us) ! i) \<lparr> item_id := '''' \<rparr>
               = (fst (normalizeItem (xs ! i) u)) \<lparr> item_id := '''' \<rparr>) \<and>
        (\<forall>s. get_prop (Some (xs ! i)) ''id'' = Some (JStr s) \<longrightarrow>
               item_id (fst (map_normalizeItem xs us) ! i) = s)"
      unfolding u0 by (auto simp: normalizeItem_fields)
  qed
  then show ?thesis
    unfolding normalizeItems_array[OF assms] by (simp add: map_normalizeItem_length)
qed

theorem normalizeItems_pointwise_witness:
  "length (fst (normalizeItems (Some (JArr [JObj [(''id'', JStr ''a''), (''type'', JStr ''Activity'')], JNull])) sample_uuids)) = 2 \<and>
   item_id (fst (normalizeItems (Some (JArr [JObj [(''id'', JStr ''a''), (''type'', JStr ''Activity'')], JNull])) sample_uuids) ! 0) = ''a''"
proof -
  have ne: "[JObj [(''id'', JStr ''a''), (''type'', JStr ''Activity'')], JNull] \<noteq> []" by simp
  show ?thesis
    using normalizeItems_pointwise[OF ne, of sample_uuids] by simp
qed

section \<open>Fresh items, the default state and the import guard\<close>

lemma emptyDomains_keys: "map fst emptyDomains = domain_keys"
  by (simp add: emptyDomains_def domain_keys_def)

lemma tally_emptyDomains: "tally_item (fst (newItem t us)) c = c"
  by (simp add: tally_item_def newItem_fst emptyDomains_def)

lemma totalDomainTags_zero: "totalDomainTags zero_counts = Num 0"
  by (simp add: totalDomainTags_def DOMAINS_def zero_counts_def)

lemma loadState_default:
  assumes "raw = None \<or> raw = Some [] \<or> (\<exists>text. raw = Some text \<and> parse text = None)"
  shows "fst (loadState parse raw today us) =
           \<lparr> programme = defaultProgrammeDetails today, items = [fst (newItem Module us)] \<rparr>"
  using assms by (auto simp: loadState_def split: prod.splits option.splits)

text \<open>
  C10. A freshly created item of any type has an empty name, empty notes and the six
  domain tags, each false. The full-default state, which holds one fresh Module item,
  therefore has a total of zero domain tags, and both exports are disabled.
\<close>

theorem newItem_blank:
  "item_name (fst (newItem t us)) = '''' \<and>
   item_notes (fst (newItem t us)) = '''' \<and>
   item_domains (fst (newItem t us)) =
     [(''awareness'', JBool False), (''coagency'', JBool False), (''practice'', JBool False),
      (''ethics'', JBool False), (''governance'', JBool False), (''reflection'', JBool False)] \<and>
   items (fst (loadState parse None today us)) = [fst (newItem Module us)] \<and>
   totalDomainTags (coverage (items (fst (loadState parse None today us)))) = Num 0 \<and>
   \<not> hasAnyTag (coverage (items (fst (loadState parse None today us)))) \<and>
   export_disabled (items (fst (loadState parse None today us)))"
proof -
  have st: "items (fst (loadState parse None today us)) = [fst (newItem Module us)]"
    by (simp add: loadState_default)
  have cov: "coverage [fst (newItem Module us)] = zero_counts"
    by (simp add: coverage_def tally_emptyDomains)
  have tot: "totalDomainTags (coverage (items (fst (loadState parse None today us)))) = Num 0"
    by (simp only: st cov totalDomainTags_zero)
  have fresh: "item_name (fst (newItem t us)) = [] \<and> item_notes (fst (newItem t us)) = [] \<and>
     item_domains (fst (newItem t us)) =
       [(''awareness'', JBool False), (''coagency'', JBool False), (''practice'', JBool False),
        (''ethics'', JBool False), (''governance'', JBool False), (''reflection'', JBool False)]"
    by (simp add: newItem_fst emptyDomains_def)
  from tot have "\<not> hasAnyTag (coverage (items (fst (loadState parse None today us))))"
    by (simp add: hasAnyTag_def)
  then show ?thesis
    using fresh st tot by (simp only: export_disabled_def simp_thms)
qed

text \<open>
  C6. When the store has no entry for the key, or the stored text does not parse as
  JSON, \<^verbatim>\<open>loadState\<close> returns (it does not throw) the full-default state: one fresh
  Module item with blank name and notes, and a programme whose text fields are blank,
  whose mapping date is today's date and whose version is \<^verbatim>\<open>v0.1\<close>.
\<close>

theorem loadState_fallback:
  assumes "raw = None \<or> (\<exists>text. raw = Some text \<and> parse text = None)"
  shows "fst (loadState parse raw today us) =
           \<lparr> programme = \<lparr> programmeTitle = '''', awardLevel = '''', department = '''',
                            institution = '''', mappingDate = today, version = ''v0.1'' \<rparr>,
             items = [\<lparr> item_id = us 0, item_type = Module, item_name = '''', item_notes = '''',
                        item_domains = emptyDomains \<rparr>] \<rparr>"
  using assms loadState_default[of raw parse today us]
  by (auto simp: newItem_fst defaultProgrammeDetails_def)

theorem loadState_fallback_witness:
  "fst (loadState (\<lambda>text. if text = ''null'' then Some JNull else None) (Some ''not json'')
          ''2024-03-01'' sample_uuids) =
     \<lparr> programme = \<lparr> programmeTitle = '''', awardLevel = '''', department = '''',
                      institution = '''', mappingDate = ''2024-03-01'', version = ''v0.1'' \<rparr>,
       items = [\<lparr> item_id = sample_uuids 0, item_type = Module, item_name = '''',
                  item_notes = '''', item_domains = emptyDomains \<rparr>] \<rparr> \<and>
   fst (loadState (\<lambda>text. if text = ''null'' then Some JNull else None) None
          ''2024-03-01'' sample_uuids) =
     \<lparr> programme = \<lparr> programmeTitle = '''', awardLevel = '''', department = '''',
                      institution = '''', mappingDate = ''2024-03-01'', version = ''v0.1'' \<rparr>,
       items = [\<lparr> item_id = sample_uuids 0, item_type = Module, item_name = '''',
                  item_notes = '''', item_domains = emptyDomains \<rparr>] \<rparr>"
  using loadState_fallback[of "Some ''not json''" "\<lambda>text. if text = ''null'' then Some JNull else None"
          "''2024-03-01''" sample_uuids]
        loadState_fallback[of None "\<lambda>text. if text = ''null'' then Some JNull else None"
          "''2024-03-01''" sample_uuids]
  by simp

text \<open>
  The test \<^verbatim>\<open>nextItems.length === 0\<close> in \<^verbatim>\<open>handleImportFile\<close> is made on the
  normaliser's result, which is never empty: no file reaches the second alert.
\<close>

lemma handleImportFile_never_rejects:
  "fst (handleImportFile parsed ok today us st) \<noteq> AlertNotMappingExport"
proof (cases parsed)
  case None
  then show ?thesis by (simp add: handleImportFile_def)
next
  case (Some v)
  have "fst (normalizeItems (get_prop (Some v) ''items'') us) \<noteq> []"
    by (rule normalizeItems_not_Nil)
  with Some show ?thesis by (simp add: handleImportFile_def Let_def)
qed

text \<open>
  C2. The file \<^verbatim>\<open>{"programme":{"programmeTitle":"X"},"items":[]}\<close> parses to an
  object whose \<^verbatim>\<open>items\<close> is the empty array. The claim expects the alert for a file
  that is not a mapping export and an unchanged state. The code normalises the empty
  array to one fresh Module item first, so the import goes on to the confirmation
  dialog: declined, the state is kept; confirmed, the state is replaced by the
  programme titled X and that one item.
\<close>

theorem handleImportFile_empty_items:
  "handleImportFile
     (Some (JObj [(''programme'', JObj [(''programmeTitle'', JStr ''X'')]), (''items'', JArr [])]))
     False today us st = (Declined, st) \<and>
   handleImportFile
     (Some (JObj [(''programme'', JObj [(''programmeTitle'', JStr ''X'')]), (''items'', JArr [])]))
     True today us st =
     (Replaced,
      \<lparr> programme = \<lparr> programmeTitle = ''X'', awardLevel = '''', department = '''',
                       institution = '''', mappingDate = today, version = ''v0.1'' \<rparr>,
        items = [\<lparr> item_id = us 0, item_type = Module, item_name = '''', item_notes = '''',
                   item_domains = emptyDomains \<rparr>] \<rparr>)"
  by (simp add: handleImportFile_def normalizeItems_default newItem_fst normalizeProgramme_def
        defaultProgrammeDetails_def)

section \<open>Domain tags after normalisation\<close>

lemma set_prop_keys: "fst ` set (set_prop k v ps) = insert k (fst ` set ps)"
  by (induction ps) auto

lemma set_prop_distinct: "distinct (map fst ps) \<Longrightarrow> distinct (map fst (set_prop k v ps))"
  by (induction ps) (auto simp: set_prop_keys)

lemma set_prop_members: "set (set_prop k v ps) \<subseteq> insert (k, v) (set ps)"
  by (induction ps) auto

lemma map_of_set_prop: "map_of (set_prop k v ps) = (map_of ps)(k \<mapsto> v)"
  by (induction ps) (auto simp: fun_upd_twist)

lemma spread_keys: "fst ` set (spread base src) = fst ` set base \<union> fst ` set src"
  unfolding spread_def by (induction src arbitrary: base) (simp_all add: set_prop_keys)

lemma spread_distinct: "distinct (map fst base) \<Longrightarrow> distinct (map fst (spread base src))"
  unfolding spread_def by (induction src arbitrary: base) (auto simp: set_prop_distinct)

lemma spread_members: "set (spread base src) \<subseteq> set base \<union> set src"
  unfolding spread_def
proof (induction src arbitrary: base)
  case Nil
  then show ?case by simp
next
  case (Cons p src)
  have "set (foldl (\<lambda>acc p. set_prop (fst p) (snd p) acc) (set_prop (fst p) (snd p) base) src)
          \<subseteq> set (set_prop (fst p) (snd p) base) \<union> set src"
    by (rule Cons.IH)
  also have "\<dots> \<subseteq> insert p (set base) \<union> set src"
    using set_prop_members[of "fst p" "snd p" base] by auto
  finally show ?case by auto
qed

lemma spread_absent:
  "k \<notin> fst ` set src \<Longrightarrow> map_of (spread base src) k = map_of base k"
  unfolding spread_def by (induction src arbitrary: base) (auto simp: map_of_set_prop)

lemma emptyDomains_key_set: "fst ` set emptyDomains = set domain_keys"
  by (simp add: emptyDomains_def domain_keys_def)

lemma spread_nil: "spread base [] = base"
  by (simp add: spread_def)

lemma emptyDomains_six: "six_boolean_tags emptyDomains"
  by (simp add: six_boolean_tags_def emptyDomains_def domain_keys_def)

lemma spread_six_boolean:
  assumes "list_all (\<lambda>p. fst p \<in> set domain_keys \<and> is_boolean (snd p)) src"
  shows "six_boolean_tags (spread emptyDomains src)"
proof -
  have keys: "fst ` set src \<subseteq> set domain_keys"
    using assms by (auto simp: list_all_iff)
  have "set (map fst (spread emptyDomains src)) = set domain_keys"
    using keys by (auto simp: spread_keys emptyDomains_key_set)
  moreover have "distinct (map fst (spread emptyDomains src))"
    by (rule spread_distinct) (simp add: emptyDomains_keys domain_keys_def)
  moreover have "list_all (\<lambda>p. is_boolean (snd p)) (spread emptyDomains src)"
  proof -
    have "\<And>p. p \<in> set (spread emptyDomains src) \<Longrightarrow> is_boolean (snd p)"
    proof -
      fix p assume "p \<in> set (spread emptyDomains src)"
      then have "p \<in> set emptyDomains \<or> p \<in> set src"
        using spread_members[of emptyDomains src] by auto
      then show "is_boolean (snd p)"
        using assms by (auto simp: list_all_iff emptyDomains_def)
    qed
    then show ?thesis by (simp add: list_all_iff)
  qed
  ultimately show ?thesis by (simp add: six_boolean_tags_def)
qed

lemma map_normalizeItem_member:
  assumes "m \<in> set (fst (map_normalizeItem xs us))"
  shows "\<exists>it u. it \<in> set xs \<and> m = fst (normalizeItem it u)"
proof -
  from assms obtain i where i: "i < length xs" "fst (map_normalizeItem xs us) ! i = m"
    by (auto simp: in_set_conv_nth map_normalizeItem_length)
  from map_normalizeItem_nth[OF i(1), of us] obtain u where
    "fst (map_normalizeItem xs us) ! i = fst (normalizeItem (xs ! i) u)" by blast
  with i show ?thesis by (metis nth_mem)
qed

lemma normalizeItems_member_source:
  assumes "m \<in> set (fst (normalizeItems itemsRaw us))"
  shows "\<exists>src. item_domains m = spread emptyDomains src \<and>
           (src = [] \<or> (\<exists>xs it. itemsRaw = Some (JArr xs) \<and> it \<in> set xs \<and>
                                 src = own_props (get_prop (Some it) ''domains'')))"
proof (cases "\<not> isArray itemsRaw \<or> itemsRaw = Some (JArr [])")
  case True
  with assms have "m = fst (newItem Module us)" by (simp add: normalizeItems_default)
  then have "item_domains m = spread emptyDomains []" by (simp add: newItem_fst spread_nil)
  then show ?thesis by blast
next
  case False
  then obtain xs where xs: "itemsRaw = Some (JArr xs)" "xs \<noteq> []"
    by (cases itemsRaw rule: isArray.cases) auto
  with assms have "m \<in> set (fst (map_normalizeItem xs us))" by (simp add: normalizeItems_array)
  from map_normalizeItem_member[OF this] obtain it u where
    it: "it \<in> set xs" "m = fst (normalizeItem it u)" by blast
  then have "item_domains m = spread emptyDomains (own_props (get_prop (Some it) ''domains''))"
    by (simp add: normalizeItem_fields)
  with xs it show ?thesis by blast
qed

text \<open>
  C1. The claim expects every normalised item to carry exactly the six domain keys,
  each with a boolean, whatever the source held. The spread in \<^verbatim>\<open>normalizeItems\<close>
  copies every member of the source \<^verbatim>\<open>domains\<close> object onto the six false tags, so
  on the input below a key outside the six and a value that is not a boolean both reach
  the result, which the declared type \<^verbatim>\<open>Record<DomainKey, boolean>\<close> excludes.
\<close>

theorem normalizeItems_keeps_foreign_members:
  "item_domains (hd (fst (normalizeItems
      (Some (JArr [JObj [(''domains'', JObj [(''awareness'', JStr ''yes''), (''legacy'', JBool True)])]]))
      sample_uuids))) =
     [(''awareness'', JStr ''yes''), (''coagency'', JBool False), (''practice'', JBool False),
      (''ethics'', JBool False), (''governance'', JBool False), (''reflection'', JBool False),
      (''legacy'', JBool True)] \<and>
   \<not> six_boolean_tags (item_domains (hd (fst (normalizeItems
      (Some (JArr [JObj [(''domains'', JObj [(''awareness'', JStr ''yes''), (''legacy'', JBool True)])]]))
      sample_uuids))))"
  by (simp add: normalizeItems_def normalizeItem_def randomUUID_def spread_def emptyDomains_def
        six_boolean_tags_def domain_keys_def)

text \<open>
  What the normaliser does guarantee. Every item it returns has a domain-tags object
  that is the six false tags overlaid with the members of the source element's
  \<^verbatim>\<open>domains\<close> value (nothing, for a default item or a source that is not an object).
  Its keys are distinct and include all six domain keys; a domain key the source does
  not have is false; and when the source has only domain keys with boolean values, the
  object has exactly the six keys, each a boolean.
\<close>

theorem normalizeItems_domain_tags:
  assumes "m \<in> set (fst (normalizeItems itemsRaw us))"
  shows "\<exists>src. item_domains m = spread emptyDomains src \<and>
           (src = [] \<or> (\<exists>xs it. itemsRaw = Some (JArr xs) \<and> it \<in> set xs \<and>
                                 src = own_props (get_prop (Some it) ''domains''))) \<and>
           distinct (map fst (item_domains m)) \<and>
           set domain_keys \<subseteq> set (map fst (item_domains m)) \<and>
           (\<forall>k \<in> set domain_keys. k \<notin> set (map fst src) \<longrightarrow>
                map_of (item_domains m) k = Some (JBool False)) \<and>
           (list_all (\<lambda>p. fst p \<in> set domain_keys \<and> is_boolean (snd p)) src \<longrightarrow>
                six_boolean_tags (item_domains m))"
proof -
  from normalizeItems_member_source[OF assms] obtain src where
    src: "item_domains m = spread emptyDomains src"
    and origin: "src = [] \<or> (\<exists>xs it. itemsRaw = Some (JArr xs) \<and> it \<in> set xs \<and>
                                 src = own_props (get_prop (Some it) ''domains''))"
    by blast
  have d: "distinct (map fst (item_domains m))"
    unfolding src by (rule spread_distinct) (simp add: emptyDomains_keys domain_keys_def)
  have k: "set domain_keys \<subseteq> set (map fst (item_domains m))"
    unfolding src by (simp add: spread_keys emptyDomains_key_set)
  have f: "\<forall>k \<in> set domain_keys. k \<notin> set (map fst src) \<longrightarrow>
                map_of (item_domains m) k = Some (JBool False)"
    unfolding src by (auto simp: spread_absent emptyDomains_def domain_keys_def)
  have s: "list_all (\<lambda>p. fst p \<in> set domain_keys \<and> is_boolean (snd p)) src \<longrightarrow>
                six_boolean_tags (item_domains m)"
    unfolding src by (simp add: spread_six_boolean)
  from src origin d k f s show ?thesis by blast
qed

theorem normalizeItems_domain_tags_witness:
  "\<lparr> item_id = ''a'', item_type = Activity, item_name = '''', item_notes = '''',
      item_domains = [(''awareness'', JBool False), (''coagency'', JBool False),
        (''practice'', JBool False), (''ethics'', JBool True), (''governance'', JBool False),
        (''reflection'', JBool False)] \<rparr>
     \<in> set (fst (normalizeItems
         (Some (JArr [JObj [(''id'', JStr ''a''), (''type'', JStr ''Activity''),
                            (''domains'', JObj [(''ethics'', JBool True)])]])) sample_uuids)) \<and>
   set domain_keys \<subseteq> set [''awareness'', ''coagency'', ''practice'', ''ethics'', ''governance'', ''reflection'']"
proof -
  let ?m = "\<lparr> item_id = ''a'', item_type = Activity, item_name = '''', item_notes = '''',
      item_domains = [(''awareness'', JBool False), (''coagency'', JBool False),
        (''practice'', JBool False), (''ethics'', JBool True), (''governance'', JBool False),
        (''reflection'', JBool False)] \<rparr>"
  let ?raw = "Some (JArr [JObj [(''id'', JStr ''a''), (''type'', JStr ''Activity''),
                            (''domains'', JObj [(''ethics'', JBool True)])]])"
  have h: "?m \<in> set (fst (normalizeItems ?raw sample_uuids))"
    by (simp add: normalizeItems_def normalizeItem_def spread_def emptyDomains_def)
  from normalizeItems_domain_tags[OF h] have "set domain_keys \<subseteq> set (map fst (item_domains ?m))"
    by blast
  with h show ?thesis by simp
qed

section \<open>The export file name\<close>

lemma hyphen_not_slug: "\<not> is_slug_char (CHR ''-'')"
  by (simp add: is_slug_char_def)

lemma replace_runs_nonslug:
  "\<not> is_slug_char c \<Longrightarrow>
     replace_runs (c # cs) = CHR ''-'' # replace_runs (dropWhile (\<lambda>x. \<not> is_slug_char x) cs)"
  by simp

lemma replace_runs_collapse: "replace_runs s = collapse_runs s"
proof (induction s rule: collapse_runs.induct)
  case 1
  then show ?case by simp
next
  case (2 c)
  then show ?case by simp
next
  case (3 c d cs)
  show ?case
  proof (cases "is_slug_char c")
    case True
    with 3 show ?thesis by simp
  next
    case False
    note c = this
    show ?thesis
    proof (cases "is_slug_char d")
      case True
      with c 3 show ?thesis by simp
    next
      case False
      with c 3 show ?thesis by simp
    qed
  qed
qed

lemma replace_runs_head:
  "replace_runs (dropWhile (\<lambda>x. \<not> is_slug_char x) cs) \<noteq> CHR ''-'' # b"
proof (cases "dropWhile (\<lambda>x. \<not> is_slug_char x) cs")
  case Nil
  show ?thesis unfolding Nil by simp
next
  case (Cons y ys)
  then have "is_slug_char y" using hd_dropWhile[of "\<lambda>x. \<not> is_slug_char x" cs] by auto
  moreover from this have "y \<noteq> CHR ''-''" using hyphen_not_slug by auto
  ultimately show ?thesis unfolding Cons by simp
qed

lemma replace_runs_no_double: "\<not> has_double_hyphen (replace_runs s)"
proof (induction s rule: replace_runs.induct)
  case 1
  then show ?case by (simp add: has_double_hyphen_def)
next
  case (2 c cs)
  show ?case
  proof (cases "is_slug_char c")
    case True
    then have "c \<noteq> CHR ''-''" using hyphen_not_slug by auto
    with True 2(1) show ?thesis
      by (auto simp: has_double_hyphen_def Cons_eq_append_conv)
  next
    case False
    with 2(2) replace_runs_head[of cs] show ?thesis
      by (auto simp: has_double_hyphen_def Cons_eq_append_conv)
  qed
qed

lemma replace_runs_chars: "c \<in> set (replace_runs s) \<Longrightarrow> is_slug_char c \<or> c = CHR ''-''"
  by (induction s rule: replace_runs.induct) (auto split: if_splits)

lemma no_double_tl: "\<not> has_double_hyphen (c # cs) \<Longrightarrow> \<not> has_double_hyphen cs"
proof
  assume "has_double_hyphen cs"
  then obtain a b where "cs = a @ [CHR ''-'', CHR ''-''] @ b"
    unfolding has_double_hyphen_def by blast
  then have "c # cs = (c # a) @ [CHR ''-'', CHR ''-''] @ b" by simp
  then have "has_double_hyphen (c # cs)" unfolding has_double_hyphen_def by blast
  moreover assume "\<not> has_double_hyphen (c # cs)"
  ultimately show False by simp
qed

lemma dropWhile_hyphen_once:
  assumes "\<not> has_double_hyphen t"
  shows "dropWhile (\<lambda>c. c = CHR ''-'') t =
           (case t of [] \<Rightarrow> [] | c # cs \<Rightarrow> if c = CHR ''-'' then cs else t)"
proof (cases t)
  case Nil
  then show ?thesis by simp
next
  case (Cons c cs)
  show ?thesis
  proof (cases "c = CHR ''-''")
    case False
    with Cons show ?thesis by simp
  next
    case True
    have "dropWhile (\<lambda>c. c = CHR ''-'') cs = cs"
    proof (cases cs)
      case Nil
      then show ?thesis by simp
    next
      case (Cons d ds)
      have "d \<noteq> CHR ''-''"
      proof
        assume "d = CHR ''-''"
        with Cons \<open>t = c # cs\<close> True have "t = [] @ [CHR ''-'', CHR ''-''] @ ds" by simp
        then have "has_double_hyphen t" unfolding has_double_hyphen_def by blast
        with assms show False by simp
      qed
      with Cons show ?thesis by simp
    qed
    with Cons True show ?thesis by simp
  qed
qed

lemma dropWhile_hyphen_end:
  assumes "\<not> has_double_hyphen t"
  shows "rev (dropWhile (\<lambda>c. c = CHR ''-'') (rev t)) =
           (if t \<noteq> [] \<and> last t = CHR ''-'' then butlast t else t)"
proof (cases t rule: rev_cases)
  case Nil
  then show ?thesis by simp
next
  case (snoc ys y)
  show ?thesis
  proof (cases "y = CHR ''-''")
    case False
    with snoc show ?thesis by simp
  next
    case True
    have "dropWhile (\<lambda>c. c = CHR ''-'') (rev ys) = rev ys"
    proof (cases ys rule: rev_cases)
      case Nil
      then show ?thesis by simp
    next
      case (snoc zs z)
      have "z \<noteq> CHR ''-''"
      proof
        assume "z = CHR ''-''"
        with snoc \<open>t = ys @ [y]\<close> True have "t = zs @ [CHR ''-'', CHR ''-''] @ []" by simp
        then have "has_double_hyphen t" unfolding has_double_hyphen_def by blast
        with assms show False by simp
      qed
      with snoc show ?thesis by simp
    qed
    with snoc True show ?thesis by simp
  qed
qed

lemma strip_edge_is_trim:
  assumes "\<not> has_double_hyphen t"
  shows "strip_edge_hyphens t = trim_hyphens t"
proof -
  define t1 where "t1 = (case t of [] \<Rightarrow> [] | c # cs \<Rightarrow> if c = CHR ''-'' then cs else t)"
  have d1: "dropWhile (\<lambda>c. c = CHR ''-'') t = t1"
    unfolding t1_def by (rule dropWhile_hyphen_once[OF assms])
  have nd: "\<not> has_double_hyphen t1"
  proof (cases t)
    case Nil
    then show ?thesis using assms by (simp add: t1_def)
  next
    case (Cons c cs)
    then show ?thesis using assms no_double_tl[of c cs] by (simp add: t1_def)
  qed
  have "trim_hyphens t = (if t1 \<noteq> [] \<and> last t1 = CHR ''-'' then butlast t1 else t1)"
    unfolding trim_hyphens_def d1 by (rule dropWhile_hyphen_end[OF nd])
  moreover have "strip_edge_hyphens t = (if t1 \<noteq> [] \<and> last t1 = CHR ''-'' then butlast t1 else t1)"
    unfolding strip_edge_hyphens_def t1_def by (simp only: Let_def)
  ultimately show ?thesis by simp
qed

lemma safeSlug_rule: "safeSlug s = slug_rule s"
  unfolding safeSlug_def slug_rule_def
  using strip_edge_is_trim[OF replace_runs_no_double[of "toLowerCase s"]]
  by (simp add: replace_runs_collapse)

lemma slug_example: "safeSlug ''MSc Public Health!!'' = ''msc-public-health''"
  by code_simp

text \<open>
  C7. The export file name is the slug of the programme title, a hyphen, the mapping
  date and the extension. The slug is the title in lowercase with every run of
  characters outside \<^verbatim>\<open>[a-z0-9]\<close> collapsed to one hyphen and the hyphens at both
  ends trimmed. The title \<^verbatim>\<open>MSc Public Health!!\<close> with the mapping date
  \<^verbatim>\<open>2024-03-01\<close> gives \<^verbatim>\<open>msc-public-health-2024-03-01\<close>.
\<close>

theorem export_filename_slug:
  "safeSlug s = slug_rule s \<and>
   (safeSlug (programmeTitle p) \<noteq> [] \<and> mappingDate p \<noteq> [] \<longrightarrow>
      export_stem p today = safeSlug (programmeTitle p) @ ''-'' @ mappingDate p) \<and>
   fst (exportJSON st now today) = export_stem (programme st) today @ ''.json'' \<and>
   fst (exportMarkdown st now today) = export_stem (programme st) today @ ''.md'' \<and>
   export_stem \<lparr> programmeTitle = ''MSc Public Health!!'', awardLevel = a, department = d,
                 institution = i, mappingDate = ''2024-03-01'', version = v \<rparr> today
     = ''msc-public-health-2024-03-01''"
proof -
  have empty: "safeSlug [] = []"
    by (simp add: safeSlug_def toLowerCase_def strip_edge_hyphens_def)
  have stem: "safeSlug (programmeTitle p) \<noteq> [] \<and> mappingDate p \<noteq> [] \<longrightarrow>
      export_stem p today = safeSlug (programmeTitle p) @ ''-'' @ mappingDate p"
    using empty by (auto simp: export_stem_def or_else_def)
  have scenario: "export_stem \<lparr> programmeTitle = ''MSc Public Health!!'', awardLevel = a,
                 department = d, institution = i, mappingDate = ''2024-03-01'', version = v \<rparr> today
     = ''msc-public-health-2024-03-01''"
    by (simp add: export_stem_def or_else_def slug_example)
  show ?thesis
    using stem scenario
    by (simp add: safeSlug_rule exportJSON_def exportMarkdown_def Let_def)
qed

theorem export_filename_slug_witness:
  "slug_rule ''MSc Public Health!!'' = ''msc-public-health'' \<and>
   export_stem \<lparr> programmeTitle = ''MSc Public Health!!'', awardLevel = '''', department = '''',
                 institution = '''', mappingDate = ''2024-03-01'', version = ''v0.1'' \<rparr> ''2026-01-01''
     = safeSlug ''MSc Public Health!!'' @ ''-2024-03-01''"
proof -
  let ?p = "\<lparr> programmeTitle = ''MSc Public Health!!'', awardLevel = '''', department = '''',
                 institution = '''', mappingDate = ''2024-03-01'', version = ''v0.1'' \<rparr>"
  have h: "safeSlug (programmeTitle ?p) \<noteq> [] \<and> mappingDate ?p \<noteq> []"
    by (simp add: slug_example)
  have r: "slug_rule ''MSc Public Health!!'' = ''msc-public-health''"
    by code_simp
  from export_filename_slug[of "''MSc Public Health!!''" ?p "''2026-01-01''"] h r
  show ?thesis by simp
qed

section \<open>The three item sections of the report\<close>

lemma group_items_from:
  "foldl (\<lambda>groups it. groups(item_type it := groups (item_type it) @ [it])) g its t
     = g t @ filter (\<lambda>it. item_type it = t) its"
  by (induction its arbitrary: g) auto

lemma group_items_filter: "group_items its t = filter (\<lambda>it. item_type it = t) its"
  by (simp add: group_items_def group_items_from)

lemma renderType_appends: "renderType groups t md = md @ renderType groups t []"
  by (simp add: renderType_def Let_def)

lemma plural_lower:
  "toLowerCase (PLURAL_LABELS Module) = ''modules''"
  "toLowerCase (PLURAL_LABELS Activity) = ''activities''"
  "toLowerCase (PLURAL_LABELS Assessment) = ''assessments''"
  by code_simp+

lemma renderType_empty:
  "groups t = [] \<Longrightarrow>
     renderType groups t [] =
       [''### '' @ PLURAL_LABELS t, '''', ''_(No '' @ toLowerCase (PLURAL_LABELS t) @ '' added.)_'', '''']"
  by (simp add: renderType_def)

lemma renderType_table:
  "groups t \<noteq> [] \<Longrightarrow>
     renderType groups t [] =
       [''### '' @ PLURAL_LABELS t, '''', ''| # | Item | Domain tags | Notes |'', ''|---:|---|---|---|'']
       @ map (\<lambda>(idx, it). item_row idx it) (zip [0..<length (groups t)] (groups t)) @ ['''']"
  by (simp add: renderType_def Let_def)

text \<open>
  C9. The lines that \<^verbatim>\<open>buildMarkdown\<close> joins are the head of the report, then the
  section of the Modules, then that of the Activities, then that of the Assessments,
  then the closing part, whatever the items are. A type with no item gives its heading,
  a blank line, the italic placeholder \<^verbatim>\<open>_(No ... added.)_\<close> and a blank line, and
  no table; a type with items gives its heading, a blank line and a table with one row
  per item of that type.
\<close>

theorem buildMarkdown_sections:
  "buildMarkdown args today = join [CHR 0x0A] (buildMarkdown_lines args today) \<and>
   buildMarkdown_lines args today =
     md_head args today
     @ renderType (group_items (md_items args)) Module []
     @ renderType (group_items (md_items args)) Activity []
     @ renderType (group_items (md_items args)) Assessment []
     @ md_tail args \<and>
   (filter (\<lambda>it. item_type it = Module) (md_items args) = [] \<longrightarrow>
      renderType (group_items (md_items args)) Module [] =
        [''### Modules'', '''', ''_(No modules added.)_'', '''']) \<and>
   (filter (\<lambda>it. item_type it = Activity) (md_items args) = [] \<longrightarrow>
      renderType (group_items (md_items args)) Activity [] =
        [''### Activities'', '''', ''_(No activities added.)_'', '''']) \<and>
   (filter (\<lambda>it. item_type it = Assessment) (md_items args) = [] \<longrightarrow>
      renderType (group_items (md_items args)) Assessment [] =
        [''### Assessments'', '''', ''_(No assessments added.)_'', '''']) \<and>
   (filter (\<lambda>it. item_type it = t) (md_items args) \<noteq> [] \<longrightarrow>
      renderType (group_items (md_items args)) t [] =
        [''### '' @ (case t of Module \<Rightarrow> ''Modules'' | Activity \<Rightarrow> ''Activities''
                      | Assessment \<Rightarrow> ''Assessments''),
         '''', ''| # | Item | Domain tags | Notes |'', ''|---:|---|---|---|'']
        @ map (\<lambda>(idx, it). item_row idx it)
            (zip [0..<length (filter (\<lambda>it. item_type it = t) (md_items args))]
                 (filter (\<lambda>it. item_type it = t) (md_items args)))
        @ [''''])"
proof -
  let ?g = "group_items (md_items args)"
  have lines: "buildMarkdown_lines args today =
     md_head args today @ renderType ?g Module [] @ renderType ?g Activity []
     @ renderType ?g Assessment [] @ md_tail args"
    unfolding buildMarkdown_lines_def Let_def
    using renderType_appends[of ?g Assessment "renderType ?g Activity (renderType ?g Module (md_head args today))"]
          renderType_appends[of ?g Activity "renderType ?g Module (md_head args today)"]
          renderType_appends[of ?g Module "md_head args today"]
    by simp
  have m: "filter (\<lambda>it. item_type it = Module) (md_items args) = [] \<longrightarrow>
      renderType ?g Module [] = [''### Modules'', '''', ''_(No modules added.)_'', '''']"
    using renderType_empty[of ?g Module]
    by (simp add: group_items_filter plural_lower) (simp add: PLURAL_LABELS_def)
  have a: "filter (\<lambda>it. item_type it = Activity) (md_items args) = [] \<longrightarrow>
      renderType ?g Activity [] = [''### Activities'', '''', ''_(No activities added.)_'', '''']"
    using renderType_empty[of ?g Activity]
    by (simp add: group_items_filter plural_lower) (simp add: PLURAL_LABELS_def)
  have s: "filter (\<lambda>it. item_type it = Assessment) (md_items args) = [] \<longrightarrow>
      renderType ?g Assessment [] = [''### Assessments'', '''', ''_(No assessments added.)_'', '''']"
    using renderType_empty[of ?g Assessment]
    by (simp add: group_items_filter plural_lower) (simp add: PLURAL_LABELS_def)
  have tbl: "filter (\<lambda>it. item_type it = t) (md_items args) \<noteq> [] \<longrightarrow>
      renderType ?g t [] =
        [''### '' @ (case t of Module \<Rightarrow> ''Modules'' | Activity \<Rightarrow> ''Activities''
                      | Assessment \<Rightarrow> ''Assessments''),
         '''', ''| # | Item | Domain tags | Notes |'', ''|---:|---|---|---|'']
        @ map (\<lambda>(idx, it). item_row idx it)
            (zip [0..<length (filter (\<lambda>it. item_type it = t) (md_items args))]
                 (filter (\<lambda>it. item_type it = t) (md_items args)))
        @ ['''']"
    using renderType_table[of ?g t] by (simp add: group_items_filter PLURAL_LABELS_def)
  from lines m a s tbl show ?thesis by (simp only: buildMarkdown_def simp_thms)
qed

theorem buildMarkdown_sections_witness:
  "renderType (group_items [\<lparr> item_id = ''a'', item_type = Module, item_name = '''',
        item_notes = '''', item_domains = emptyDomains \<rparr>]) Activity []
     = [''### Activities'', '''', ''_(No activities added.)_'', ''''] \<and>
   renderType (group_items [\<lparr> item_id = ''a'', item_type = Module, item_name = '''',
        item_notes = '''', item_domains = emptyDomains \<rparr>]) Assessment []
     = [''### Assessments'', '''', ''_(No assessments added.)_'', ''''] \<and>
   renderType (group_items [\<lparr> item_id = ''a'', item_type = Module, item_name = '''',
        item_notes = '''', item_domains = emptyDomains \<rparr>]) Module []
     = [''### Modules'', '''', ''| # | Item | Domain tags | Notes |'', ''|---:|---|---|---|'',
        item_row 0 \<lparr> item_id = ''a'', item_type = Module, item_name = '''',
          item_notes = '''', item_domains = emptyDomains \<rparr>, '''']"
  using buildMarkdown_sections[of
      "\<lparr> toolName = TOOL_NAME, exportedAtISO = ''2024-03-01T09:00:00.000Z'',
         md_programme = defaultProgrammeDetails ''2024-03-01'',
         md_items = [\<lparr> item_id = ''a'', item_type = Module, item_name = '''',
                        item_notes = '''', item_domains = emptyDomains \<rparr>],
         md_coverage = zero_counts, md_observations = [] \<rparr>" "''2024-03-01''" Module]
  by simp

section \<open>Coverage counts\<close>

lemma tally_fold:
  assumes "distinct ks"
  shows "foldl (\<lambda>c k. if truthy (map_of d k) then c(k \<mapsto> num_add (to_num (c k)) (Num 1)) else c) c ks k
           = (if k \<in> set ks \<and> truthy (map_of d k)
              then Some (num_add (to_num (c k)) (Num 1)) else c k)"
  using assms by (induction ks arbitrary: c) auto

lemma truthy_has_key: "truthy (map_of d k) \<Longrightarrow> k \<in> fst ` set d"
  by (cases "map_of d k") (auto simp: map_of_eq_None_iff dest: map_of_SomeD intro: rev_image_eqI)

lemma tally_item_at:
  assumes "distinct (map fst (item_domains item))"
  shows "tally_item item c k =
           (if truthy (map_of (item_domains item) k)
            then Some (num_add (to_num (c k)) (Num 1)) else c k)"
  unfolding tally_item_def tally_fold[OF assms]
  using truthy_has_key[of "item_domains item" k] by auto

lemma coverage_from:
  assumes "\<forall>it \<in> set its. distinct (map fst (item_domains it))"
      and "c k = Some (Num n)"
  shows "foldl (\<lambda>c item. tally_item item c) c its k =
           Some (Num (n + int (length (filter (\<lambda>it. truthy (map_of (item_domains it) k)) its))))"
  using assms
proof (induction its arbitrary: c n)
  case Nil
  then show ?case by simp
next
  case (Cons it its)
  from Cons.prems have d: "distinct (map fst (item_domains it))" by simp
  show ?case
  proof (cases "truthy (map_of (item_domains it) k)")
    case True
    with Cons.prems have "tally_item it c k = Some (Num (n + 1))"
      by (simp add: tally_item_at[OF d])
    from Cons.IH[of "tally_item it c" "n + 1"] this Cons.prems True show ?thesis by simp
  next
    case False
    with Cons.prems have "tally_item it c k = Some (Num n)"
      by (simp add: tally_item_at[OF d])
    from Cons.IH[of "tally_item it c" n] this Cons.prems False show ?thesis by simp
  qed
qed

lemma coverage_untouched:
  assumes "\<forall>it \<in> set its. distinct (map fst (item_domains it)) \<and> \<not> truthy (map_of (item_domains it) k)"
  shows "foldl (\<lambda>c item. tally_item item c) c its k = c k"
  using assms
proof (induction its arbitrary: c)
  case Nil
  then show ?case by simp
next
  case (Cons it its)
  then have "tally_item it c k = c k" by (simp add: tally_item_at)
  with Cons show ?case by simp
qed

lemma zero_counts_at: "k \<in> set domain_keys \<Longrightarrow> zero_counts k = Some (Num 0)"
  by (auto simp: zero_counts_def domain_keys_def)

lemma zero_counts_dom: "dom zero_counts = set domain_keys"
  by (auto simp: zero_counts_def domain_keys_def)

lemma six_boolean_truthy:
  assumes "six_boolean_tags d"
  shows "truthy (map_of d k) = (map_of d k = Some (JBool True))"
proof (cases "map_of d k")
  case None
  then show ?thesis by simp
next
  case (Some v)
  then have "(k, v) \<in> set d" by (rule map_of_SomeD)
  with assms have "is_boolean v" by (auto simp: six_boolean_tags_def list_all_iff)
  then obtain b where "v = JBool b" by (cases v) auto
  with Some show ?thesis by simp
qed

lemma six_boolean_foreign:
  assumes "six_boolean_tags d" "k \<notin> set domain_keys"
  shows "map_of d k = None"
  using assms by (auto simp: six_boolean_tags_def map_of_eq_None_iff)

lemma coverage_at:
  assumes "\<forall>it \<in> set its. six_boolean_tags (item_domains it)" "k \<in> set domain_keys"
  shows "coverage its k = Some (Num (int (tagged_with k its)))"
proof -
  have d: "\<forall>it \<in> set its. distinct (map fst (item_domains it))"
    using assms(1) by (simp add: six_boolean_tags_def)
  have "filter (\<lambda>it. truthy (map_of (item_domains it) k)) its
          = filter (\<lambda>it. map_of (item_domains it) k = Some (JBool True)) its"
    using assms(1) by (intro filter_cong) (auto simp: six_boolean_truthy)
  with coverage_from[of its zero_counts k 0] d zero_counts_at[OF assms(2)] show ?thesis
    by (simp add: coverage_def tagged_with_def)
qed

lemma coverage_dom:
  assumes "\<forall>it \<in> set its. six_boolean_tags (item_domains it)"
  shows "dom (coverage its) = set domain_keys"
proof -
  have "\<And>k. k \<notin> set domain_keys \<Longrightarrow> coverage its k = None"
  proof -
    fix k assume k: "k \<notin> set domain_keys"
    have "\<forall>it \<in> set its. distinct (map fst (item_domains it)) \<and> \<not> truthy (map_of (item_domains it) k)"
      using assms k by (auto simp: six_boolean_foreign) (simp add: six_boolean_tags_def)
    from coverage_untouched[OF this, of zero_counts] k zero_counts_dom show "coverage its k = None"
      by (auto simp: coverage_def)
  qed
  moreover have "\<And>k. k \<in> set domain_keys \<Longrightarrow> coverage its k \<noteq> None"
    using coverage_at[OF assms] by simp
  ultimately show ?thesis
  proof (intro set_eqI)
    fix k
    assume none: "\<And>k. k \<notin> set domain_keys \<Longrightarrow> coverage its k = None"
       and some: "\<And>k. k \<in> set domain_keys \<Longrightarrow> coverage its k \<noteq> None"
    show "k \<in> dom (coverage its) \<longleftrightarrow> k \<in> set domain_keys"
      using none[of k] some[of k] by (cases "k \<in> set domain_keys") (auto simp: dom_def)
  qed
qed

lemma sum_swap:
  "sum_list (map (\<lambda>k. length (filter (\<lambda>it. P it k) its)) ks)
     = sum_list (map (\<lambda>it. length (filter (\<lambda>k. P it k) ks)) its)"
proof (induction its)
  case Nil
  then show ?case by simp
next
  case (Cons it its)
  have "sum_list (map (\<lambda>k. length (filter (\<lambda>it. P it k) (it # its))) ks)
          = sum_list (map (\<lambda>k. (if P it k then 1 else 0) + length (filter (\<lambda>it. P it k) its)) ks)"
    by (intro arg_cong[where f = sum_list] map_cong) auto
  also have "\<dots> = sum_list (map (\<lambda>k. if P it k then 1 else 0) ks)
                   + sum_list (map (\<lambda>k. length (filter (\<lambda>it. P it k) its)) ks)"
    by (simp add: sum_list_addf)
  also have "sum_list (map (\<lambda>k. if P it k then 1 else 0) ks) = length (filter (\<lambda>k. P it k) ks)"
    by (induction ks) auto
  finally show ?case using Cons.IH by simp
qed

lemma true_entries_by_key:
  assumes "six_boolean_tags d"
  shows "length (filter (\<lambda>k. map_of d k = Some (JBool True)) domain_keys)
           = length (filter (\<lambda>p. snd p = JBool True) d)"
proof -
  from assms have dist: "distinct (map fst d)" and keys: "set (map fst d) = set domain_keys"
    by (simp_all add: six_boolean_tags_def)
  have dk: "distinct domain_keys" by (simp add: domain_keys_def)
  have "filter (\<lambda>p. snd p = JBool True) d
          = filter ((\<lambda>k. map_of d k = Some (JBool True)) \<circ> fst) d"
    using dist by (intro filter_cong) (auto dest: eq_key_imp_eq_value)
  then have "length (filter (\<lambda>p. snd p = JBool True) d)
          = length (filter (\<lambda>k. map_of d k = Some (JBool True)) (map fst d))"
    by (simp add: filter_map)
  also have "\<dots> = card ({k. map_of d k = Some (JBool True)} \<inter> set (map fst d))"
    using dist by (rule distinct_length_filter)
  also have "\<dots> = length (filter (\<lambda>k. map_of d k = Some (JBool True)) domain_keys)"
    unfolding keys using dk by (rule distinct_length_filter[symmetric])
  finally show ?thesis by simp
qed

lemma tagged_sum:
  assumes "\<forall>it \<in> set its. six_boolean_tags (item_domains it)"
  shows "sum_list (map (\<lambda>k. tagged_with k its) domain_keys) = true_tag_count its"
proof -
  have "sum_list (map (\<lambda>k. tagged_with k its) domain_keys)
          = sum_list (map (\<lambda>it. length (filter (\<lambda>k. map_of (item_domains it) k = Some (JBool True)) domain_keys)) its)"
    unfolding tagged_with_def by (rule sum_swap)
  also have "\<dots> = true_tag_count its"
    unfolding true_tag_count_def
    using assms by (intro arg_cong[where f = sum_list] map_cong) (auto simp: true_entries_by_key)
  finally show ?thesis .
qed

lemma totalDomainTags_sum:
  assumes "\<forall>k \<in> set domain_keys. cov k = Some (Num (int (c k)))"
  shows "totalDomainTags cov = Num (int (sum_list (map c domain_keys)))"
  using assms by (simp add: totalDomainTags_def DOMAINS_def domain_keys_def)

text \<open>
  C4. When every item's domain tags are exactly the six keys with boolean values, the
  coverage has exactly the six domain keys; the count of each key is a non-negative
  number, the number of items that have the key set to true; and the six counts add up
  to the number of true domain-tag entries over all items, which is also the total that
  the program computes from the coverage.
\<close>

theorem coverage_sum:
  assumes "\<forall>it \<in> set its. six_boolean_tags (item_domains it)"
  shows "dom (coverage its) = set domain_keys \<and>
         (\<forall>k \<in> set domain_keys. \<exists>n. 0 \<le> n \<and> coverage its k = Some (Num n)) \<and>
         (\<forall>k \<in> set domain_keys. coverage its k = Some (Num (int (tagged_with k its)))) \<and>
         sum_list (map (\<lambda>k. tagged_with k its) domain_keys) = true_tag_count its \<and>
         totalDomainTags (coverage its) = Num (int (true_tag_count its))"
proof -
  have at: "\<forall>k \<in> set domain_keys. coverage its k = Some (Num (int (tagged_with k its)))"
    using coverage_at[OF assms] by blast
  then have nonneg: "\<forall>k \<in> set domain_keys. \<exists>n. 0 \<le> n \<and> coverage its k = Some (Num n)"
    by (metis of_nat_0_le_iff)
  from totalDomainTags_sum[of "coverage its" "\<lambda>k. tagged_with k its", OF at]
  have "totalDomainTags (coverage its) = Num (int (true_tag_count its))"
    by (simp add: tagged_sum[OF assms])
  with coverage_dom[OF assms] at nonneg tagged_sum[OF assms] show ?thesis by blast
qed

theorem coverage_sum_witness:
  "six_boolean_tags [(''awareness'', JBool True), (''coagency'', JBool False),
      (''practice'', JBool False), (''ethics'', JBool True),
      (''governance'', JBool False), (''reflection'', JBool False)] \<and>
   six_boolean_tags [(''awareness'', JBool False), (''coagency'', JBool False),
      (''practice'', JBool False), (''ethics'', JBool True),
      (''governance'', JBool False), (''reflection'', JBool False)] \<and>
   totalDomainTags (coverage
     [\<lparr> item_id = ''a'', item_type = Module, item_name = ''Intro'', item_notes = '''',
        item_domains = [(''awareness'', JBool True), (''coagency'', JBool False),
          (''practice'', JBool False), (''ethics'', JBool True),
          (''governance'', JBool False), (''reflection'', JBool False)] \<rparr>,
      \<lparr> item_id = ''b'', item_type = Assessment, item_name = ''Essay'', item_notes = '''',
        item_domains = [(''awareness'', JBool False), (''coagency'', JBool False),
          (''practice'', JBool False), (''ethics'', JBool True),
          (''governance'', JBool False), (''reflection'', JBool False)] \<rparr>]) = Num 3 \<and>
   coverage
     [\<lparr> item_id = ''a'', item_type = Module, item_name = ''Intro'', item_notes = '''',
        item_domains = [(''awareness'', JBool True), (''coagency'', JBool False),
          (''practice'', JBool False), (''ethics'', JBool True),
          (''governance'', JBool False), (''reflection'', JBool False)] \<rparr>,
      \<lparr> item_id = ''b'', item_type = Assessment, item_name = ''Essay'', item_notes = '''',
        item_domains = [(''awareness'', JBool False), (''coagency'', JBool False),
          (''practice'', JBool False), (''ethics'', JBool True),
          (''governance'', JBool False), (''reflection'', JBool False)] \<rparr>] ''ethics''
     = Some (Num 2)"
proof -
  let ?d1 = "[(''awareness'', JBool True), (''coagency'', JBool False),
      (''practice'', JBool False), (''ethics'', JBool True),
      (''governance'', JBool False), (''reflection'', JBool False)]"
  let ?d2 = "[(''awareness'', JBool False), (''coagency'', JBool False),
      (''practice'', JBool False), (''ethics'', JBool True),
      (''governance'', JBool False), (''reflection'', JBool False)]"
  let ?its = "[\<lparr> item_id = ''a'', item_type = Module, item_name = ''Intro'', item_notes = '''',
                   item_domains = ?d1 \<rparr>,
               \<lparr> item_id = ''b'', item_type = Assessment, item_name = ''Essay'', item_notes = '''',
                   item_domains = ?d2 \<rparr>]"
  have d: "six_boolean_tags ?d1" "six_boolean_tags ?d2"
    by (simp_all add: six_boolean_tags_def domain_keys_def)
  then have h: "\<forall>it \<in> set ?its. six_boolean_tags (item_domains it)"
    by simp
  have t: "true_tag_count ?its = 3"
    by (simp add: true_tag_count_def)
  have e: "tagged_with ''ethics'' ?its = 2"
    by (simp add: tagged_with_def)
  have k: "''ethics'' \<in> set domain_keys"
    by (simp add: domain_keys_def)
  from coverage_sum[OF h] k have
    "totalDomainTags (coverage ?its) = Num (int (true_tag_count ?its))"
    "coverage ?its ''ethics'' = Some (Num (int (tagged_with ''ethics'' ?its)))"
    by blast+
  with t e d show ?thesis by simp
qed

section \<open>Most and least represented domain\<close>

lemma insert_cmp_set: "set (insert_cmp cmp x ys) = insert x (set ys)"
  by (induction ys) auto

lemma sort_cmp_set: "set (sort_cmp cmp xs) = set xs"
  by (induction xs) (auto simp: sort_cmp_def insert_cmp_set)

lemma sort_cmp_Cons: "sort_cmp cmp (x # xs) = insert_cmp cmp x (sort_cmp cmp xs)"
  by (simp add: sort_cmp_def)

lemma insert_cmp_not_Nil: "insert_cmp cmp x ys \<noteq> []"
  by (cases ys) auto

lemma sort_cmp_Nil_iff: "sort_cmp cmp xs = [] \<longleftrightarrow> xs = []"
  by (cases xs) (auto simp: sort_cmp_Cons insert_cmp_not_Nil, simp add: sort_cmp_def)

lemma hd_insert_cmp:
  "hd (insert_cmp cmp x ys) = (if ys \<noteq> [] \<and> gt0 (cmp x (hd ys)) then hd ys else x)"
  by (cases ys) auto

lemma last_insert_cmp:
  "last (insert_cmp cmp x ys) = (if \<forall>y \<in> set ys. gt0 (cmp x y) then x else last ys)"
  by (induction ys) (auto simp: insert_cmp_not_Nil)

lemma sort_cmp_first_max:
  assumes "xs \<noteq> []"
      and "\<forall>a \<in> set xs. \<forall>b \<in> set xs. gt0 (cmp a b) \<longleftrightarrow> f a < (f b :: int)"
  shows "\<exists>pre post. xs = pre @ hd (sort_cmp cmp xs) # post \<and>
           (\<forall>e \<in> set pre. f e < f (hd (sort_cmp cmp xs))) \<and>
           (\<forall>e \<in> set post. f e \<le> f (hd (sort_cmp cmp xs)))"
  using assms
proof (induction xs)
  case Nil
  then show ?case by simp
next
  case (Cons x xs)
  show ?case
  proof (cases "xs = []")
    case True
    then show ?thesis by (intro exI[of _ "[]"]) (simp add: sort_cmp_def)
  next
    case False
    let ?h = "hd (sort_cmp cmp xs)"
    from False have ne: "sort_cmp cmp xs \<noteq> []" by (simp add: sort_cmp_Nil_iff)
    then have hin: "?h \<in> set xs" using sort_cmp_set[of cmp xs] hd_in_set by blast
    from Cons.prems have rel: "\<forall>a \<in> set xs. \<forall>b \<in> set xs. gt0 (cmp a b) \<longleftrightarrow> f a < f b"
      by simp
    from Cons.IH[OF False rel] obtain pre post where
      dec: "xs = pre @ ?h # post" and lt: "\<forall>e \<in> set pre. f e < f ?h"
      and le: "\<forall>e \<in> set post. f e \<le> f ?h" by blast
    from Cons.prems hin have xh: "gt0 (cmp x ?h) \<longleftrightarrow> f x < f ?h" by simp
    show ?thesis
    proof (cases "f x < f ?h")
      case True
      with xh ne have hd: "hd (sort_cmp cmp (x # xs)) = ?h"
        by (simp add: sort_cmp_Cons hd_insert_cmp)
      have "x # xs = (x # pre) @ ?h # post" using dec by simp
      moreover have "\<forall>e \<in> set (x # pre). f e < f ?h" using True lt by simp
      ultimately show ?thesis unfolding hd using le by blast
    next
      case False
      with xh ne have hd: "hd (sort_cmp cmp (x # xs)) = x"
        by (simp add: sort_cmp_Cons hd_insert_cmp)
      have "\<forall>e \<in> set xs. f e \<le> f x"
      proof
        fix e assume "e \<in> set xs"
        then have "e \<in> set pre \<or> e = ?h \<or> e \<in> set post" using dec
          by (metis Un_iff set_ConsD set_append)
        with lt le have "f e \<le> f ?h" by force
        with False show "f e \<le> f x" by simp
      qed
      moreover have "x # xs = [] @ x # xs" by simp
      ultimately show ?thesis unfolding hd by (metis empty_iff empty_set)
    qed
  qed
qed

lemma sort_cmp_last_min:
  assumes "xs \<noteq> []"
      and "\<forall>a \<in> set xs. \<forall>b \<in> set xs. gt0 (cmp a b) \<longleftrightarrow> f a < (f b :: int)"
  shows "\<exists>pre post. xs = pre @ last (sort_cmp cmp xs) # post \<and>
           (\<forall>e \<in> set pre. f (last (sort_cmp cmp xs)) \<le> f e) \<and>
           (\<forall>e \<in> set post. f (last (sort_cmp cmp xs)) < f e)"
  using assms
proof (induction xs)
  case Nil
  then show ?case by simp
next
  case (Cons x xs)
  have all: "(\<forall>y \<in> set (sort_cmp cmp xs). gt0 (cmp x y)) \<longleftrightarrow> (\<forall>y \<in> set xs. f x < f y)"
    using Cons.prems by (simp add: sort_cmp_set)
  show ?case
  proof (cases "\<forall>y \<in> set xs. f x < f y")
    case True
    with all have l: "last (sort_cmp cmp (x # xs)) = x"
      by (simp add: sort_cmp_Cons last_insert_cmp)
    have "x # xs = [] @ x # xs" by simp
    with True show ?thesis unfolding l by (metis empty_iff empty_set)
  next
    case False
    let ?l = "last (sort_cmp cmp xs)"
    from False all have "\<not> (\<forall>y \<in> set (sort_cmp cmp xs). gt0 (cmp x y))" by simp
    then have l: "last (sort_cmp cmp (x # xs)) = ?l"
      by (simp only: sort_cmp_Cons last_insert_cmp if_False)
    from False have ne: "xs \<noteq> []" by auto
    from Cons.prems have rel: "\<forall>a \<in> set xs. \<forall>b \<in> set xs. gt0 (cmp a b) \<longleftrightarrow> f a < f b"
      by simp
    from Cons.IH[OF ne rel] obtain pre post where
      dec: "xs = pre @ ?l # post" and le: "\<forall>e \<in> set pre. f ?l \<le> f e"
      and lt: "\<forall>e \<in> set post. f ?l < f e" by blast
    from False obtain y where y: "y \<in> set xs" "f y \<le> f x" by force
    then have "y \<in> set pre \<or> y = ?l \<or> y \<in> set post" using dec
      by (metis Un_iff set_ConsD set_append)
    with le lt have "f ?l \<le> f y" by force
    with y have "f ?l \<le> f x" by simp
    moreover have "x # xs = (x # pre) @ ?l # post" using dec by simp
    ultimately have "x # xs = (x # pre) @ ?l # post \<and> (\<forall>e \<in> set (x # pre). f ?l \<le> f e)"
      using le by simp
    with lt show ?thesis unfolding l by blast
  qed
qed

lemma tally_fold_num:
  "c k = Some (Num n) \<Longrightarrow>
     \<exists>n'. foldl (\<lambda>c k. if truthy (map_of d k) then c(k \<mapsto> num_add (to_num (c k)) (Num 1)) else c) c ks k
            = Some (Num n')"
proof (induction ks arbitrary: c n)
  case Nil
  then show ?case by simp
next
  case (Cons a ks)
  let ?c = "if truthy (map_of d a) then c(a \<mapsto> num_add (to_num (c a)) (Num 1)) else c"
  from Cons.prems have "\<exists>m. ?c k = Some (Num m)" by auto
  then obtain m where "?c k = Some (Num m)" by blast
  from Cons.IH[where c = ?c and n = m, OF this] show ?case by simp
qed

lemma coverage_fold_num:
  "c k = Some (Num n) \<Longrightarrow> \<exists>n'. foldl (\<lambda>c item. tally_item item c) c its k = Some (Num n')"
proof (induction its arbitrary: c n)
  case Nil
  then show ?case by simp
next
  case (Cons it its)
  from tally_fold_num[where c = c and k = k and n = n, OF Cons.prems]
  obtain n1 where "tally_item it c k = Some (Num n1)"
    unfolding tally_item_def by blast
  from Cons.IH[where c = "tally_item it c" and n = n1, OF this] show ?case by simp
qed

lemma coverage_num:
  assumes "d \<in> set DOMAINS"
  shows "coverage its (key d) = Some (Num (count_of (coverage its) d))"
proof -
  from assms have "zero_counts (key d) = Some (Num 0)"
    by (auto simp: DOMAINS_def zero_counts_def)
  from coverage_fold_num[where c = zero_counts and k = "key d" and n = 0, OF this]
  obtain n where "coverage its (key d) = Some (Num n)"
    unfolding coverage_def by blast
  then show ?thesis by (simp add: count_of_def)
qed

lemma by_count_desc_gt0:
  assumes "a \<in> set DOMAINS" "b \<in> set DOMAINS"
  shows "gt0 (by_count_desc (coverage its) a b)
           \<longleftrightarrow> count_of (coverage its) a < count_of (coverage its) b"
  unfolding by_count_desc_def coverage_num[OF assms(1)] coverage_num[OF assms(2)]
  by simp

lemma DOMAINS_not_Nil: "DOMAINS \<noteq> []"
  by (simp add: DOMAINS_def)

lemma most_first_max:
  "\<exists>pre post. most (coverage its) = Some (hd (sorted_domains (coverage its))) \<and>
     DOMAINS = pre @ hd (sorted_domains (coverage its)) # post \<and>
     (\<forall>d \<in> set pre. count_of (coverage its) d < count_of (coverage its) (hd (sorted_domains (coverage its)))) \<and>
     (\<forall>d \<in> set post. count_of (coverage its) d \<le> count_of (coverage its) (hd (sorted_domains (coverage its))))"
proof -
  have ne: "sorted_domains (coverage its) \<noteq> []"
    by (simp add: sorted_domains_def sort_cmp_Nil_iff DOMAINS_not_Nil)
  then have "most (coverage its) = Some (hd (sorted_domains (coverage its)))"
    by (cases "sorted_domains (coverage its)") (auto simp: most_def)
  moreover have "\<forall>a \<in> set DOMAINS. \<forall>b \<in> set DOMAINS.
      gt0 (by_count_desc (coverage its) a b) \<longleftrightarrow> count_of (coverage its) a < count_of (coverage its) b"
    using by_count_desc_gt0 by blast
  from sort_cmp_first_max[OF DOMAINS_not_Nil this]
  have "\<exists>pre post. DOMAINS = pre @ hd (sorted_domains (coverage its)) # post \<and>
     (\<forall>d \<in> set pre. count_of (coverage its) d < count_of (coverage its) (hd (sorted_domains (coverage its)))) \<and>
     (\<forall>d \<in> set post. count_of (coverage its) d \<le> count_of (coverage its) (hd (sorted_domains (coverage its))))"
    unfolding sorted_domains_def .
  ultimately show ?thesis by blast
qed

lemma least_last_min:
  "\<exists>pre post. least (coverage its) = Some (last (sorted_domains (coverage its))) \<and>
     DOMAINS = pre @ last (sorted_domains (coverage its)) # post \<and>
     (\<forall>d \<in> set pre. count_of (coverage its) (last (sorted_domains (coverage its))) \<le> count_of (coverage its) d) \<and>
     (\<forall>d \<in> set post. count_of (coverage its) (last (sorted_domains (coverage its))) < count_of (coverage its) d)"
proof -
  have ne: "sorted_domains (coverage its) \<noteq> []"
    by (simp add: sorted_domains_def sort_cmp_Nil_iff DOMAINS_not_Nil)
  then have "least (coverage its) = Some (last (sorted_domains (coverage its)))"
    by (simp add: least_def)
  moreover have "\<forall>a \<in> set DOMAINS. \<forall>b \<in> set DOMAINS.
      gt0 (by_count_desc (coverage its) a b) \<longleftrightarrow> count_of (coverage its) a < count_of (coverage its) b"
    using by_count_desc_gt0 by blast
  from sort_cmp_last_min[OF DOMAINS_not_Nil this]
  have "\<exists>pre post. DOMAINS = pre @ last (sorted_domains (coverage its)) # post \<and>
     (\<forall>d \<in> set pre. count_of (coverage its) (last (sorted_domains (coverage its))) \<le> count_of (coverage its) d) \<and>
     (\<forall>d \<in> set post. count_of (coverage its) (last (sorted_domains (coverage its))) < count_of (coverage its) d)"
    unfolding sorted_domains_def .
  ultimately show ?thesis by blast
qed

lemma observations_tagged:
  assumes "gt0 (totalDomainTags cov)" "most cov = Some m" "least cov = Some l"
  shows "observations n cov ! 1 = represented_line ''most'' cov m \<and>
         observations n cov ! 2 = represented_line ''least'' cov l"
  using assms by (simp add: observations_def totalDomainTags_def Let_def)

lemma tie_first:
  assumes "xs = pre @ m # post" "\<forall>e \<in> set pre. f e < (f m :: int)" "\<forall>e \<in> set xs. f e = c"
  shows "m = hd xs"
proof (cases pre)
  case Nil
  with assms(1) show ?thesis by simp
next
  case (Cons p ps)
  with assms(1) have "p \<in> set xs" "m \<in> set xs" by simp_all
  with assms(3) have "f p = f m" by simp
  moreover from Cons assms(2) have "f p < f m" by simp
  ultimately show ?thesis by simp
qed

lemma tie_last:
  assumes "xs = pre @ l # post" "\<forall>e \<in> set post. f l < (f e :: int)" "\<forall>e \<in> set xs. f e = c"
  shows "l = last xs"
proof (cases post rule: rev_cases)
  case Nil
  with assms(1) show ?thesis by simp
next
  case (snoc ps p)
  with assms(1) have "p \<in> set xs" "l \<in> set xs" by simp_all
  with assms(3) have "f l = f p" by simp
  moreover from snoc assms(2) have "f l < f p" by simp
  ultimately show ?thesis by simp
qed

lemma DOMAINS_ends: "hd DOMAINS \<noteq> last DOMAINS"
  by (simp add: DOMAINS_def)

text \<open>
  C3. When the total tagged count is positive, the second observation names the most
  represented domain and the third the least represented one. The most represented
  domain has the maximum count and is the first such domain in registry order: every
  domain before it has a strictly smaller count. The least represented domain has the
  minimum count, and its tie is broken by registry order as well: being the last
  element of the stable descending sort, it is the last domain in registry order with
  the minimum count, every domain after it having a strictly larger count. When all
  six counts are equal, the most represented domain is the first of the registry and
  the least represented the last, two different domains. Both are functions of the
  coverage, so equal inputs give equal picks.
\<close>

theorem observations_most_least:
  assumes "gt0 (totalDomainTags (coverage its))"
  shows "\<exists>m l pre post pre' post'.
     most (coverage its) = Some m \<and> least (coverage its) = Some l \<and>
     (\<forall>d \<in> set DOMAINS. coverage its (key d) = Some (Num (count_of (coverage its) d))) \<and>
     DOMAINS = pre @ m # post \<and>
     (\<forall>d \<in> set pre. count_of (coverage its) d < count_of (coverage its) m) \<and>
     (\<forall>d \<in> set post. count_of (coverage its) d \<le> count_of (coverage its) m) \<and>
     DOMAINS = pre' @ l # post' \<and>
     (\<forall>d \<in> set pre'. count_of (coverage its) l \<le> count_of (coverage its) d) \<and>
     (\<forall>d \<in> set post'. count_of (coverage its) l < count_of (coverage its) d) \<and>
     ((\<forall>d \<in> set DOMAINS. count_of (coverage its) d = count_of (coverage its) (hd DOMAINS)) \<longrightarrow>
        m = hd DOMAINS \<and> l = last DOMAINS \<and> m \<noteq> l) \<and>
     observations (length its) (coverage its) ! 1 = represented_line ''most'' (coverage its) m \<and>
     observations (length its) (coverage its) ! 2 = represented_line ''least'' (coverage its) l"
proof -
  let ?m = "hd (sorted_domains (coverage its))"
  let ?l = "last (sorted_domains (coverage its))"
  from most_first_max[of its] obtain pre post where
    m: "most (coverage its) = Some ?m"
       "DOMAINS = pre @ ?m # post"
       "\<forall>d \<in> set pre. count_of (coverage its) d < count_of (coverage its) ?m"
       "\<forall>d \<in> set post. count_of (coverage its) d \<le> count_of (coverage its) ?m"
    by blast
  from least_last_min[of its] obtain pre' post' where
    l: "least (coverage its) = Some ?l"
       "DOMAINS = pre' @ ?l # post'"
       "\<forall>d \<in> set pre'. count_of (coverage its) ?l \<le> count_of (coverage its) d"
       "\<forall>d \<in> set post'. count_of (coverage its) ?l < count_of (coverage its) d"
    by blast
  have c: "\<forall>d \<in> set DOMAINS. coverage its (key d) = Some (Num (count_of (coverage its) d))"
    using coverage_num by blast
  have tie: "(\<forall>d \<in> set DOMAINS. count_of (coverage its) d = count_of (coverage its) (hd DOMAINS)) \<longrightarrow>
        ?m = hd DOMAINS \<and> ?l = last DOMAINS \<and> ?m \<noteq> ?l"
  proof
    assume eq: "\<forall>d \<in> set DOMAINS. count_of (coverage its) d = count_of (coverage its) (hd DOMAINS)"
    have "?m = hd DOMAINS" by (rule tie_first[OF m(2) m(3) eq])
    moreover have "?l = last DOMAINS" by (rule tie_last[OF l(2) l(4) eq])
    ultimately show "?m = hd DOMAINS \<and> ?l = last DOMAINS \<and> ?m \<noteq> ?l"
      using DOMAINS_ends by simp
  qed
  from observations_tagged[OF assms m(1) l(1), of "length its"]
  have obs: "observations (length its) (coverage its) ! 1 = represented_line ''most'' (coverage its) ?m"
            "observations (length its) (coverage its) ! 2 = represented_line ''least'' (coverage its) ?l"
    by simp_all
  show ?thesis
    using m(1) l(1) c m(2) m(3) m(4) l(2) l(3) l(4) tie obs by blast
qed

theorem observations_most_least_witness:
  "gt0 (totalDomainTags (coverage
     [\<lparr> item_id = ''a'', item_type = Module, item_name = ''Intro'', item_notes = '''',
        item_domains = [(''awareness'', JBool True), (''coagency'', JBool False),
          (''practice'', JBool False), (''ethics'', JBool True),
          (''governance'', JBool False), (''reflection'', JBool False)] \<rparr>])) \<and>
   observations 1 (coverage
     [\<lparr> item_id = ''a'', item_type = Module, item_name = ''Intro'', item_notes = '''',
        item_domains = [(''awareness'', JBool True), (''coagency'', JBool False),
          (''practice'', JBool False), (''ethics'', JBool True),
          (''governance'', JBool False), (''reflection'', JBool False)] \<rparr>]) ! 1
     = ''The most represented domain is **Awareness & Orientation** (1 item).'' \<and>
   observations 1 (coverage
     [\<lparr> item_id = ''a'', item_type = Module, item_name = ''Intro'', item_notes = '''',
        item_domains = [(''awareness'', JBool True), (''coagency'', JBool False),
          (''practice'', JBool False), (''ethics'', JBool True),
          (''governance'', JBool False), (''reflection'', JBool False)] \<rparr>]) ! 2
     = ''The least represented domain is **Reflection, Learning & Renewal** (0 items).''"
proof -
  let ?its = "[\<lparr> item_id = ''a'', item_type = Module, item_name = ''Intro'', item_notes = '''',
        item_domains = [(''awareness'', JBool True), (''coagency'', JBool False),
          (''practice'', JBool False), (''ethics'', JBool True),
          (''governance'', JBool False), (''reflection'', JBool False)] \<rparr>]"
  have h: "gt0 (totalDomainTags (coverage ?its))"
    by code_simp
  have m: "most (coverage ?its) = Some (DOMAINS ! 0)"
    by code_simp
  have l: "least (coverage ?its) = Some (DOMAINS ! 5)"
    by code_simp
  have lm: "represented_line ''most'' (coverage ?its) (DOMAINS ! 0)
              = ''The most represented domain is **Awareness & Orientation** (1 item).''"
    by code_simp
  have ll: "represented_line ''least'' (coverage ?its) (DOMAINS ! 5)
              = ''The least represented domain is **Reflection, Learning & Renewal** (0 items).''"
    by code_simp
  from observations_most_least[OF h] obtain m' l' where
    "most (coverage ?its) = Some m'" "least (coverage ?its) = Some l'"
    "observations (length ?its) (coverage ?its) ! 1 = represented_line ''most'' (coverage ?its) m'"
    "observations (length ?its) (coverage ?its) ! 2 = represented_line ''least'' (coverage ?its) l'"
    by blast
  with m l lm ll have
    "observations (length ?its) (coverage ?its) ! 1
       = ''The most represented domain is **Awareness & Orientation** (1 item).''"
    "observations (length ?its) (coverage ?its) ! 2
       = ''The least represented domain is **Reflection, Learning & Renewal** (0 items).''"
    by simp_all
  with h show ?thesis by simp
qed

end
